theory Spec2Isabelle
  imports Main "HOL-Library.Word" "HOL-Library.Sublist"
begin

section \<open>Python values\<close>

text \<open>
  A Python \<open>bytes\<close> object is a list of 8-bit characters, which is what \<open>string\<close> is.
  A Python \<open>str\<close> is a list of Unicode code points. A \<open>str\<close> literal of the source
  (always ASCII there) is written \<open>u ''...''\<close>.
\<close>

type_synonym bytes = string
type_synonym pystr = "nat list"

definition u :: "string \<Rightarrow> pystr" where
  "u s = map of_char s"

text \<open>
  The values \<open>json.loads\<close> returns: \<open>None\<close>, \<open>bool\<close>, \<open>int\<close> (unbounded),
  \<open>float\<close> (the 64 bits of an IEEE double), \<open>str\<close>, \<open>list\<close> and \<open>dict\<close>.
  A \<open>dict\<close> keeps its insertion order, so it is an association list; \<open>json.loads\<close>
  builds fresh objects, so a parsed document is a tree and mutating a sub-object in place
  is an update at its position.
\<close>

datatype json =
    JNull
  | JBool bool
  | JInt int
  | JFloat "64 word"
  | JStr pystr
  | JArr "json list"
  | JObj "(pystr \<times> json) list"

datatype pyerr =
    AttributeError
  | ValueError
  | UnicodeEncodeError
  | ArrowInvalid
  | OSError
  | SameFileError
  | SystemExit

text \<open>Truth value of a Python object (\<open>x or y\<close>, \<open>if x\<close>).\<close>

fun truthy :: "json \<Rightarrow> bool" where
  "truthy JNull = False"
| "truthy (JBool b) = b"
| "truthy (JInt i) = (i \<noteq> 0)"
| "truthy (JFloat w) = (w \<noteq> 0 \<and> w \<noteq> 0x8000000000000000)"
| "truthy (JStr s) = (s \<noteq> [])"
| "truthy (JArr xs) = (xs \<noteq> [])"
| "truthy (JObj kvs) = (kvs \<noteq> [])"

text \<open>\<open>d.get(k)\<close>: the value, or \<open>None\<close> when the key is missing.\<close>

definition dict_get :: "(pystr \<times> json) list \<Rightarrow> pystr \<Rightarrow> json" where
  "dict_get kvs k = (case map_of kvs k of None \<Rightarrow> JNull | Some v \<Rightarrow> v)"

text \<open>\<open>d[k] = v\<close>: an existing key keeps its position, a new key goes last.\<close>

fun dict_set :: "('k \<times> 'v) list \<Rightarrow> 'k \<Rightarrow> 'v \<Rightarrow> ('k \<times> 'v) list" where
  "dict_set [] k v = [(k, v)]"
| "dict_set ((k', v') # kvs) k v =
     (if k' = k then (k, v) # kvs else (k', v') # dict_set kvs k v)"

text \<open>\<open>d.setdefault(k, dflt)\<close>: the value returned and the dictionary afterwards.\<close>

definition dict_setdefault ::
  "(pystr \<times> json) list \<Rightarrow> pystr \<Rightarrow> json \<Rightarrow> json \<times> (pystr \<times> json) list" where
  "dict_setdefault kvs k dflt =
     (case map_of kvs k of
        Some v \<Rightarrow> (v, kvs)
      | None \<Rightarrow> (dflt, kvs @ [(k, dflt)]))"

section \<open>The feature rewriter\<close>

text \<open>
  \<open>isinstance(spec, dict) and spec.get("_type") == "List"\<close>
\<close>

fun is_list_spec :: "json \<Rightarrow> bool" where
  "is_list_spec (JObj skvs) = (dict_get skvs (u ''_type'') = JStr (u ''List''))"
| "is_list_spec _ = False"

text \<open>\<open>spec["_type"] = "Sequence"\<close>, reached only for a \<open>dict\<close>.\<close>

fun set_sequence :: "json \<Rightarrow> json" where
  "set_sequence (JObj skvs) = JObj (dict_set skvs (u ''_type'') (JStr (u ''Sequence'')))"
| "set_sequence j = j"

text \<open>
  The loop \<open>for name, spec in feats.items()\<close> of \<open>fix_parquet_hf_metadata.py\<close>, with
  its two accumulators \<open>changes\<close> and \<open>changed_names\<close>; it returns the feature map
  as the in-place assignments leave it.
\<close>

fun feats_loop ::
  "(pystr \<times> json) list \<Rightarrow> int \<Rightarrow> pystr list \<Rightarrow> (pystr \<times> json) list \<times> int \<times> pystr list" where
  "feats_loop [] changes changed_names = ([], changes, changed_names)"
| "feats_loop ((name, spec) # rest) changes changed_names =
     (if is_list_spec spec then
        (case feats_loop rest (changes + 1) (changed_names @ [name]) of
           (rest', c, ns) \<Rightarrow> ((name, set_sequence spec) # rest', c, ns))
      else
        (case feats_loop rest changes changed_names of
           (rest', c, ns) \<Rightarrow> ((name, spec) # rest', c, ns)))"

text \<open>
  \<open>hf.setdefault("info", {}).setdefault("features", feats)\<close> on the top-level dictionary
  \<open>kvs\<close>; the inner call needs a \<open>dict\<close> and raises on anything else.
\<close>

definition setdefault_info_features ::
  "(pystr \<times> json) list \<Rightarrow> json \<Rightarrow> pyerr + (pystr \<times> json) list" where
  "setdefault_info_features kvs feats =
     (case dict_setdefault kvs (u ''info'') (JObj []) of
        (JObj ikvs, kvs1) \<Rightarrow>
          Inr (dict_set kvs1 (u ''info'')
                 (JObj (snd (dict_setdefault ikvs (u ''features'') feats))))
      | (_, kvs1) \<Rightarrow> Inl AttributeError)"

text \<open>
  What a call returns: the early exits of \<open>fix_parquet_hf_metadata.py\<close> return a pair,
  its last line a triple.
\<close>

datatype rewrite_ret =
    Ret2 json int
  | Ret3 json int "pystr list"

fun ret_json :: "rewrite_ret \<Rightarrow> json" where
  "ret_json (Ret2 j n) = j"
| "ret_json (Ret3 j n ns) = j"

fun ret_changes :: "rewrite_ret \<Rightarrow> int" where
  "ret_changes (Ret2 j n) = n"
| "ret_changes (Ret3 j n ns) = n"

text \<open>
  \<open>convert_list_to_sequence\<close> of \<open>fix_parquet_hf_metadata.py\<close>. \<open>feats\<close> is the object
  stored under \<open>hf["info"]["features"]\<close>, so the loop's assignments show in \<open>hf\<close>: the
  model writes the rewritten feature map back at that position.
\<close>

definition convert_list_to_sequence :: "json \<Rightarrow> pyerr + rewrite_ret" where
  "convert_list_to_sequence hf =
     (case hf of
        JObj kvs \<Rightarrow>
          (let got = dict_get kvs (u ''info'');
               info = (if truthy got then got else JObj [])
           in case info of
                JObj ikvs \<Rightarrow>
                  (case dict_get ikvs (u ''features'') of
                     JObj feats \<Rightarrow>
                       (case feats_loop feats 0 [] of
                          (feats', changes, changed_names) \<Rightarrow>
                            (let kvs' = dict_set kvs (u ''info'')
                                          (JObj (dict_set ikvs (u ''features'') (JObj feats')))
                             in if changes \<noteq> 0 then
                                  (case setdefault_info_features kvs' (JObj feats') of
                                     Inl e \<Rightarrow> Inl e
                                   | Inr kvs'' \<Rightarrow> Inr (Ret3 (JObj kvs'') changes changed_names))
                                else Inr (Ret3 (JObj kvs') changes changed_names)))
                   | _ \<Rightarrow> Inr (Ret2 hf 0))
              | _ \<Rightarrow> Inl AttributeError)
      | _ \<Rightarrow> Inr (Ret2 hf 0))"

text \<open>
  The caller's \<open>updated_json, n_changes, changed_names = convert_list_to_sequence(...)\<close>:
  unpacking a pair into three names raises \<open>ValueError\<close>.
\<close>

fun unpack3 :: "rewrite_ret \<Rightarrow> pyerr + (json \<times> int \<times> pystr list)" where
  "unpack3 (Ret3 j n ns) = Inr (j, n, ns)"
| "unpack3 (Ret2 j n) = Inl ValueError"

text \<open>
  \<open>convert_list_to_sequence\<close> of \<open>convert_parquet_hf_list_to_sequence.py\<close>: the same
  loop without the list of names, and a pair on every path.
\<close>

fun feats_loop_cv ::
  "(pystr \<times> json) list \<Rightarrow> int \<Rightarrow> (pystr \<times> json) list \<times> int" where
  "feats_loop_cv [] changes = ([], changes)"
| "feats_loop_cv ((name, spec) # rest) changes =
     (if is_list_spec spec then
        (case feats_loop_cv rest (changes + 1) of
           (rest', c) \<Rightarrow> ((name, set_sequence spec) # rest', c))
      else
        (case feats_loop_cv rest changes of
           (rest', c) \<Rightarrow> ((name, spec) # rest', c)))"

definition convert_list_to_sequence_cv :: "json \<Rightarrow> pyerr + (json \<times> int)" where
  "convert_list_to_sequence_cv hf =
     (case hf of
        JObj kvs \<Rightarrow>
          (let got = dict_get kvs (u ''info'');
               info = (if truthy got then got else JObj [])
           in case info of
                JObj ikvs \<Rightarrow>
                  (case dict_get ikvs (u ''features'') of
                     JObj feats \<Rightarrow>
                       (case feats_loop_cv feats 0 of
                          (feats', changes) \<Rightarrow>
                            (let kvs' = dict_set kvs (u ''info'')
                                          (JObj (dict_set ikvs (u ''features'') (JObj feats')))
                             in if changes \<noteq> 0 then
                                  (case setdefault_info_features kvs' (JObj feats') of
                                     Inl e \<Rightarrow> Inl e
                                   | Inr kvs'' \<Rightarrow> Inr (JObj kvs'', changes))
                                else Inr (JObj kvs', changes)))
                   | _ \<Rightarrow> Inr (hf, 0))
              | _ \<Rightarrow> Inl AttributeError)
      | _ \<Rightarrow> Inr (hf, 0))"

section \<open>Serialisation: \<open>json.dumps(x, ensure_ascii=False).encode("utf-8")\<close>\<close>

text \<open>
  The encoder of the standard library, with the arguments the three scripts give it:
  default separators \<open>", "\<close> and \<open>": "\<close>, no indentation, \<open>ensure_ascii=False\<close>.
  Code points are written as numbers: \<open>0x22\<close> is the double quote, \<open>0x5C\<close> the
  backslash.
\<close>

definition hex_digit :: "nat \<Rightarrow> nat" where
  "hex_digit d = (if d < 10 then 0x30 + d else 0x57 + d)"

text \<open>
  One character of a string under \<open>ensure_ascii=False\<close>: the quote, the backslash and
  the control characters below \<open>0x20\<close> are escaped, everything else stands for itself.
\<close>

definition escape_char :: "nat \<Rightarrow> pystr" where
  "escape_char c =
     (if c = 0x5C then [0x5C, 0x5C]
      else if c = 0x22 then [0x5C, 0x22]
      else if c = 0x08 then [0x5C, 0x62]
      else if c = 0x0C then [0x5C, 0x66]
      else if c = 0x0A then [0x5C, 0x6E]
      else if c = 0x0D then [0x5C, 0x72]
      else if c = 0x09 then [0x5C, 0x74]
      else if c < 0x20 then [0x5C, 0x75, 0x30, 0x30, hex_digit (c div 16), hex_digit (c mod 16)]
      else [c])"

definition py_encode_basestring :: "pystr \<Rightarrow> pystr" where
  "py_encode_basestring s = [0x22] @ concat (map escape_char s) @ [0x22]"

fun nat_repr :: "nat \<Rightarrow> pystr" where
  "nat_repr n = (if n < 10 then [0x30 + n] else nat_repr (n div 10) @ [0x30 + n mod 10])"

declare nat_repr.simps [simp del]

definition int_repr :: "int \<Rightarrow> pystr" where
  "int_repr i = (if i < 0 then 0x2D # nat_repr (nat (- i)) else nat_repr (nat i))"

text \<open>\<open>sep.join(parts)\<close>\<close>

fun join :: "pystr \<Rightarrow> pystr list \<Rightarrow> pystr" where
  "join sep [] = []"
| "join sep [x] = x"
| "join sep (x # y # ys) = x @ sep @ join sep (y # ys)"

text \<open>
  \<open>json.dumps\<close>. The text of a \<open>float\<close> (\<open>float.__repr__\<close>, or \<open>NaN\<close>,
  \<open>Infinity\<close>, \<open>-Infinity\<close>) is the parameter \<open>fr\<close>.
\<close>

fun dumps :: "(64 word \<Rightarrow> pystr) \<Rightarrow> json \<Rightarrow> pystr" where
  "dumps fr JNull = u ''null''"
| "dumps fr (JBool b) = (if b then u ''true'' else u ''false'')"
| "dumps fr (JInt i) = int_repr i"
| "dumps fr (JFloat w) = fr w"
| "dumps fr (JStr s) = py_encode_basestring s"
| "dumps fr (JArr xs) = u ''['' @ join (u '', '') (map (dumps fr) xs) @ u '']''"
| "dumps fr (JObj kvs) =
     u ''{'' @
     join (u '', '') (map (\<lambda>e. py_encode_basestring (fst e) @ u '': '' @ dumps fr (snd e)) kvs) @
     u ''}''"

text \<open>
  \<open>str.encode("utf-8")\<close>: one to four bytes for a code point; a surrogate
  (\<open>0xD800\<close> to \<open>0xDFFF\<close>, which \<open>json.loads\<close> can produce from an escape) raises
  \<open>UnicodeEncodeError\<close>.
\<close>

definition utf8_char :: "nat \<Rightarrow> bytes option" where
  "utf8_char c =
     (if c < 0x80 then Some [char_of c]
      else if c < 0x800 then Some [char_of (0xC0 + c div 64), char_of (0x80 + c mod 64)]
      else if 0xD800 \<le> c \<and> c < 0xE000 then None
      else if c < 0x10000 then
        Some [char_of (0xE0 + c div 4096), char_of (0x80 + c div 64 mod 64),
              char_of (0x80 + c mod 64)]
      else if c < 0x110000 then
        Some [char_of (0xF0 + c div 262144), char_of (0x80 + c div 4096 mod 64),
              char_of (0x80 + c div 64 mod 64), char_of (0x80 + c mod 64)]
      else None)"

fun encode_utf8 :: "pystr \<Rightarrow> pyerr + bytes" where
  "encode_utf8 [] = Inr []"
| "encode_utf8 (c # cs) =
     (case utf8_char c of
        None \<Rightarrow> Inl UnicodeEncodeError
      | Some b \<Rightarrow> (case encode_utf8 cs of Inl e \<Rightarrow> Inl e | Inr bs \<Rightarrow> Inr (b @ bs)))"

text \<open>The expression \<open>json.dumps(x, ensure_ascii=False).encode("utf-8")\<close>.\<close>

definition dumps_utf8 :: "(64 word \<Rightarrow> pystr) \<Rightarrow> json \<Rightarrow> pyerr + bytes" where
  "dumps_utf8 fr x = encode_utf8 (dumps fr x)"

section \<open>Parquet files and the file system\<close>

text \<open>
  A Parquet file as the scripts see it through \<open>pyarrow\<close>: the key-value metadata of the
  footer (\<open>pq.read_metadata(p).metadata\<close>), the metadata of the schema
  (\<open>pq.read_schema(p).metadata\<close>, \<open>pq.read_table(p).schema.metadata\<close>), and the column
  data, which no script looks at. Both metadata maps are Python dictionaries from
  \<open>bytes\<close> to \<open>bytes\<close>; a missing map (\<open>None\<close>) is read with \<open>or {}\<close> everywhere and is
  the empty list here. A dictionary is an association list in which the first entry of
  a key is the one that counts.

  The two maps are not independent in a file that \<open>pyarrow\<close> wrote: the footer holds the
  entries of the schema metadata and, under \<open>ARROW:schema\<close>, the serialised schema, and
  a reader takes the schema metadata from the first \<open>ARROW:schema\<close> entry of the footer
  (from the footer itself when there is none). The functions \<open>written_file\<close> and
  \<open>reads_as_written\<close> below say so; the record itself holds any two maps.
\<close>

type_synonym kvmeta = "(bytes \<times> bytes) list"

record pqfile =
  file_meta :: kvmeta
  schema_meta :: kvmeta
  payload :: bytes

text \<open>A table in memory (\<open>pq.read_table\<close>): schema metadata and data.\<close>

record table =
  tmeta :: kvmeta
  tdata :: bytes

text \<open>
  Paths are absolute, a list of names below the root directory. A path holds a directory,
  a readable Parquet file, a Parquet file of which only the footer can be read
  (\<open>FooterOnly\<close>, with the footer's metadata and the data: its first \<open>ARROW:schema\<close>
  entry is not a serialised schema, so \<open>pq.read_metadata\<close> works and \<open>pq.read_schema\<close>
  and \<open>pq.read_table\<close> raise), or any other content (\<open>Blob\<close>: a file of another format,
  or what an interrupted write left).
\<close>

type_synonym path = "string list"

datatype fobj = Dir | Parquet pqfile | FooterOnly kvmeta bytes | Blob bytes

type_synonym fs = "path \<rightharpoonup> fobj"

text \<open>\<open>p.name\<close>, \<open>p.parent\<close> and \<open>p / name\<close> of \<open>pathlib\<close>.\<close>

definition path_name :: "path \<Rightarrow> string" where
  "path_name p = (if p = [] then [] else last p)"

definition parent :: "path \<Rightarrow> path" where
  "parent p = butlast p"

definition path_join :: "path \<Rightarrow> string \<Rightarrow> path" where
  "path_join p name = (if name = [] then p else p @ [name])"

text \<open>\<open>p.relative_to(root)\<close> raises \<open>ValueError\<close> when \<open>p\<close> is not below \<open>root\<close>.\<close>

definition relative_to :: "path \<Rightarrow> path \<Rightarrow> pyerr + path" where
  "relative_to p r = (if prefix r p then Inr (drop (length r) p) else Inl ValueError)"

text \<open>\<open>p.suffix == ".parquet"\<close>: the name ends in \<open>.parquet\<close> after a non-empty stem.\<close>

definition has_parquet_suffix :: "path \<Rightarrow> bool" where
  "has_parquet_suffix p =
     (let name = path_name p
      in 8 < length name \<and> drop (length name - 8) name = ''.parquet'')"

text \<open>
  What the operating system and \<open>pyarrow\<close> do during the input and output of one call:
  the name \<open>NamedTemporaryFile\<close> picks; the serialisation of a schema with its metadata
  that \<open>pq.write_table\<close> stores in the footer under \<open>ARROW:schema\<close> (\<open>pack_schema\<close>) and
  the metadata a reader gets from such an entry (\<open>unpack_schema\<close>, \<open>None\<close> when the bytes
  are not a serialised schema); the order in which \<open>pq.read_metadata(p).metadata\<close>, a
  dictionary built from a hash table, lists its keys (\<open>key_rank\<close>); and which operations
  fail. A write that fails raises either before it has created or truncated its target,
  or after leaving a part of the content there; \<open>pq.write_table\<close> then tries to remove
  its target before it raises again, and \<open>cleanup_fails\<close> says that this removal fails
  too.
\<close>

datatype wfault = WriteOk | FailBefore | FailPartial bytes

record io =
  tmp_name :: string
  pack_schema :: "kvmeta \<Rightarrow> bytes"
  unpack_schema :: "bytes \<Rightarrow> kvmeta option"
  key_rank :: "bytes \<Rightarrow> nat"
  read_fails :: bool
  mktemp_fails :: bool
  write_fault :: wfault
  cleanup_fails :: bool
  replace_fails :: bool
  unlink_fails :: bool
  mkdir_budget :: "nat option"
  copy_fault :: wfault

text \<open>
  Opening a file for its footer and its schema (\<open>pq.read_metadata\<close> followed by
  \<open>pq.read_schema\<close>, or \<open>pq.read_table\<close>).
\<close>

definition pq_open :: "io \<Rightarrow> fs \<Rightarrow> path \<Rightarrow> pyerr + pqfile" where
  "pq_open i fs p =
     (if read_fails i then Inl OSError
      else case fs p of
             Some (Parquet f) \<Rightarrow> Inr f
           | Some _ \<Rightarrow> Inl ArrowInvalid
           | None \<Rightarrow> Inl OSError)"

text \<open>\<open>pq.read_metadata(p).metadata or {}\<close>: the footer alone.\<close>

definition pq_read_metadata :: "io \<Rightarrow> fs \<Rightarrow> path \<Rightarrow> pyerr + kvmeta" where
  "pq_read_metadata i fs p =
     (if read_fails i then Inl OSError
      else case fs p of
             Some (Parquet f) \<Rightarrow> Inr (file_meta f)
           | Some (FooterOnly m b) \<Rightarrow> Inr m
           | Some _ \<Rightarrow> Inl ArrowInvalid
           | None \<Rightarrow> Inl OSError)"

definition pq_read_table :: "io \<Rightarrow> fs \<Rightarrow> path \<Rightarrow> pyerr + table" where
  "pq_read_table i fs p =
     (case pq_open i fs p of
        Inl e \<Rightarrow> Inl e
      | Inr f \<Rightarrow> Inr \<lparr>tmeta = schema_meta f, tdata = payload f\<rparr>)"

text \<open>
  The order of the keys in the dictionary that \<open>pq.read_metadata(p).metadata\<close> returns:
  the entries sorted by the rank of their keys. Entries of one key keep their order.
\<close>

definition dict_order :: "io \<Rightarrow> kvmeta \<Rightarrow> kvmeta" where
  "dict_order i kvs = sort_key (\<lambda>kv. key_rank i (fst kv)) kvs"

text \<open>
  What \<open>pq.write_table(t, p)\<close> leaves at \<open>p\<close>. The writer copies the entries of the
  table's schema metadata into the footer and appends the serialised schema under
  \<open>ARROW:schema\<close>; a reader decodes the first \<open>ARROW:schema\<close> entry of the footer. When
  the table's metadata has no such key, that is the entry just appended, and the file
  reads back with the table's metadata at the schema level. When the table's metadata
  carries an \<open>ARROW:schema\<close> entry of its own (as it does when the footer of another file
  was merged into it), that older entry comes first: the schema metadata read back is
  the one packed in it, and a file whose older entry does not decode has no readable
  schema.
\<close>

definition written_file :: "io \<Rightarrow> table \<Rightarrow> fobj" where
  "written_file i t =
     (case map_of (tmeta t) ''ARROW:schema'' of
        None \<Rightarrow>
          Parquet \<lparr>file_meta = dict_order i (tmeta t @ [(''ARROW:schema'', pack_schema i (tmeta t))]),
                   schema_meta = tmeta t,
                   payload = tdata t\<rparr>
      | Some older \<Rightarrow>
          (case unpack_schema i older of
             Some m \<Rightarrow>
               Parquet \<lparr>file_meta = dict_order i (tmeta t), schema_meta = m, payload = tdata t\<rparr>
           | None \<Rightarrow> FooterOnly (dict_order i (tmeta t)) (tdata t)))"

text \<open>
  A file reads as \<open>pyarrow\<close> wrote it when its schema metadata is the one packed in the
  \<open>ARROW:schema\<close> entry of its footer, or, when there is no such entry, holds the
  entries of the footer.
\<close>

definition reads_as_written :: "io \<Rightarrow> pqfile \<Rightarrow> bool" where
  "reads_as_written i f =
     (case map_of (file_meta f) ''ARROW:schema'' of
        None \<Rightarrow> file_meta f = dict_order i (schema_meta f)
      | Some x \<Rightarrow> unpack_schema i x = Some (schema_meta f))"

text \<open>
  \<open>pq.write_table(t, p)\<close> with its failures: when the writer raises, \<open>write_table\<close>
  removes \<open>p\<close> (\<open>os.remove\<close> in its \<open>except\<close> clause, whose own failure is ignored) and
  raises again.
\<close>

definition pq_write_table :: "io \<Rightarrow> table \<Rightarrow> path \<Rightarrow> fs \<Rightarrow> (pyerr + unit) \<times> fs" where
  "pq_write_table i t p fs =
     (if fs p = Some Dir then (Inl OSError, fs)
      else case write_fault i of
             WriteOk \<Rightarrow> (Inr (), fs(p \<mapsto> written_file i t))
           | FailBefore \<Rightarrow> (Inl OSError, if cleanup_fails i then fs else fs(p := None))
           | FailPartial b \<Rightarrow>
               (Inl OSError, if cleanup_fails i then fs(p \<mapsto> Blob b) else fs(p := None)))"

text \<open>
  \<open>tempfile.NamedTemporaryFile(dir=d, suffix=".parquet", delete=False)\<close> creates an empty
  file under a name that did not exist; when no such name is found it raises.
\<close>

definition named_temporary_file :: "io \<Rightarrow> path \<Rightarrow> fs \<Rightarrow> (pyerr + path) \<times> fs" where
  "named_temporary_file i d fs =
     (let tmp_path = d @ [tmp_name i @ ''.parquet'']
      in if mktemp_fails i \<or> fs d \<noteq> Some Dir \<or> fs tmp_path \<noteq> None then (Inl OSError, fs)
         else (Inr tmp_path, fs(tmp_path \<mapsto> Blob [])))"

text \<open>\<open>os.replace(a, b)\<close>: one atomic step, or an error and no change.\<close>

definition os_replace :: "io \<Rightarrow> path \<Rightarrow> path \<Rightarrow> fs \<Rightarrow> (pyerr + unit) \<times> fs" where
  "os_replace i a b fs =
     (if replace_fails i \<or> fs a = None \<or> fs a = Some Dir \<or> fs b = Some Dir then (Inl OSError, fs)
      else (Inr (), (fs(b := fs a))(a := None)))"

text \<open>
  \<open>try: tmp_path.unlink(missing_ok=True) except Exception: pass\<close>: the file is removed
  unless the removal fails; nothing is raised.
\<close>

definition unlink_quiet :: "io \<Rightarrow> path \<Rightarrow> fs \<Rightarrow> fs" where
  "unlink_quiet i p fs = (if unlink_fails i \<or> fs p = Some Dir then fs else fs(p := None))"

text \<open>
  \<open>d.mkdir(parents=True, exist_ok=True)\<close>: the missing directories on the way to \<open>d\<close>
  are created from the top; a file in the way raises, and so does the operating system
  once its budget of directories (if any) is used up.
\<close>

fun mkdir_chain :: "nat option \<Rightarrow> path list \<Rightarrow> fs \<Rightarrow> (pyerr + unit) \<times> fs" where
  "mkdir_chain budget [] fs = (Inr (), fs)"
| "mkdir_chain budget (p # ps) fs =
     (case fs p of
        Some Dir \<Rightarrow> mkdir_chain budget ps fs
      | Some _ \<Rightarrow> (Inl OSError, fs)
      | None \<Rightarrow>
          (case budget of
             None \<Rightarrow> mkdir_chain None ps (fs(p \<mapsto> Dir))
           | Some 0 \<Rightarrow> (Inl OSError, fs)
           | Some (Suc n) \<Rightarrow> mkdir_chain (Some n) ps (fs(p \<mapsto> Dir))))"

definition mkdir_parents :: "io \<Rightarrow> path \<Rightarrow> fs \<Rightarrow> (pyerr + unit) \<times> fs" where
  "mkdir_parents i d fs = mkdir_chain (mkdir_budget i) (prefixes d) fs"

text \<open>
  \<open>shutil.copy2(src, dst)\<close>: a directory as \<open>dst\<close> means the file of the same name inside
  it; copying a file onto itself raises \<open>SameFileError\<close>.
\<close>

definition copy2 :: "io \<Rightarrow> path \<Rightarrow> path \<Rightarrow> fs \<Rightarrow> (pyerr + unit) \<times> fs" where
  "copy2 i src dst fs =
     (let target = (if fs dst = Some Dir then path_join dst (path_name src) else dst)
      in case fs src of
           None \<Rightarrow> (Inl OSError, fs)
         | Some Dir \<Rightarrow> (Inl OSError, fs)
         | Some obj \<Rightarrow>
             if target = src then (Inl SameFileError, fs)
             else if fs target = Some Dir then (Inl OSError, fs)
             else (case copy_fault i of
                     WriteOk \<Rightarrow> (Inr (), fs(target \<mapsto> obj))
                   | FailBefore \<Rightarrow> (Inl OSError, fs)
                   | FailPartial b \<Rightarrow> (Inl OSError, fs(target \<mapsto> Blob b))))"

section \<open>Reading the metadata\<close>

text \<open>
  \<open>json.loads(b.decode("utf-8"))\<close> is the parameter \<open>loads\<close>; \<open>None\<close> stands for any
  exception it raises. Every call of the scripts sits in a \<open>try\<close> that catches it.
\<close>

type_synonym loader = "bytes \<Rightarrow> json option"

text \<open>Truth value of an \<open>Optional[bytes]\<close>: \<open>None\<close> and \<open>b""\<close> are false.\<close>

definition bytes_truthy :: "bytes option \<Rightarrow> bool" where
  "bytes_truthy x = (x \<noteq> None \<and> x \<noteq> Some [])"

datatype source_tag = SrcFile | SrcSchema | SrcNone

text \<open>The dataclass \<open>HFMeta\<close>; its \<open>json\<close> is \<open>JNull\<close> where Python has \<open>None\<close>.\<close>

record HFMeta =
  source :: source_tag
  json :: json
  raw_file :: "bytes option"
  raw_schema :: "bytes option"

text \<open>
  \<open>read_hf_metadata\<close> of \<open>fix_parquet_hf_metadata.py\<close>, on the opened file. The source is
  chosen before anything is decoded; a blob that fails to parse leaves \<open>json\<close> at \<open>None\<close>.
\<close>

definition read_hf_metadata :: "loader \<Rightarrow> pqfile \<Rightarrow> HFMeta" where
  "read_hf_metadata loads f =
     (let rf = map_of (file_meta f) ''huggingface'';
          rs = map_of (schema_meta f) ''huggingface''
      in if bytes_truthy rf then
           \<lparr>source = SrcFile,
            json = (case rf of Some b \<Rightarrow> (case loads b of Some d \<Rightarrow> d | None \<Rightarrow> JNull)
                    | None \<Rightarrow> JNull),
            raw_file = rf, raw_schema = rs\<rparr>
         else if bytes_truthy rs then
           \<lparr>source = SrcSchema,
            json = (case rs of Some b \<Rightarrow> (case loads b of Some d \<Rightarrow> d | None \<Rightarrow> JNull)
                    | None \<Rightarrow> JNull),
            raw_file = rf, raw_schema = rs\<rparr>
         else \<lparr>source = SrcNone, json = JNull, raw_file = None, raw_schema = None\<rparr>)"

text \<open>
  \<open>load_hf_metadata\<close> of \<open>convert_parquet_hf_list_to_sequence.py\<close>, on the footer's
  metadata \<open>md.metadata or {}\<close>: the parsed footer blob (or \<open>None\<close>) and that metadata.
\<close>

definition load_hf_metadata :: "loader \<Rightarrow> kvmeta \<Rightarrow> json \<times> kvmeta" where
  "load_hf_metadata loads meta =
     (let hf_raw = map_of meta ''huggingface''
      in if \<not> bytes_truthy hf_raw then (JNull, meta)
         else case hf_raw of
                Some b \<Rightarrow> (case loads b of Some hf \<Rightarrow> (hf, meta) | None \<Rightarrow> (JNull, meta))
              | None \<Rightarrow> (JNull, meta))"

section \<open>Writing the metadata back\<close>

text \<open>
  The block that \<open>write_with_hf_metadata\<close> (in place) and
  \<open>rewrite_parquet_with_metadata\<close> share word for word: a temporary file beside the
  source, \<open>pq.write_table\<close> into it, \<open>os.replace\<close> over the source; an exception of
  either step is raised again after the attempt to remove the temporary file.
\<close>

definition temp_write_replace :: "io \<Rightarrow> table \<Rightarrow> path \<Rightarrow> fs \<Rightarrow> (pyerr + unit) \<times> fs" where
  "temp_write_replace i new_table src fs =
     (case named_temporary_file i (parent src) fs of
        (Inl e, fs1) \<Rightarrow> (Inl e, fs1)
      | (Inr tmp_path, fs1) \<Rightarrow>
          (case pq_write_table i new_table tmp_path fs1 of
             (Inl e, fs2) \<Rightarrow> (Inl e, unlink_quiet i tmp_path fs2)
           | (Inr _, fs2) \<Rightarrow>
               (case os_replace i tmp_path src fs2 of
                  (Inl e, fs3) \<Rightarrow> (Inl e, unlink_quiet i tmp_path fs3)
                | (Inr _, fs3) \<Rightarrow> (Inr (), fs3))))"

text \<open>
  \<open>write_with_hf_metadata\<close> of \<open>fix_parquet_hf_metadata.py\<close>: the blob goes into the
  table's schema metadata under \<open>huggingface\<close>; in place the table is written to a
  temporary file that then replaces the source, with a destination it is written there.
\<close>

definition write_with_hf_metadata ::
  "(64 word \<Rightarrow> pystr) \<Rightarrow> io \<Rightarrow> path \<Rightarrow> path option \<Rightarrow> json \<Rightarrow> fs \<Rightarrow> (pyerr + unit) \<times> fs" where
  "write_with_hf_metadata fr i src dest hf_json fs =
     (case pq_read_table i fs src of
        Inl e \<Rightarrow> (Inl e, fs)
      | Inr t \<Rightarrow>
          (case dumps_utf8 fr hf_json of
             Inl e \<Rightarrow> (Inl e, fs)
           | Inr blob \<Rightarrow>
               (let existing = dict_set (tmeta t) ''huggingface'' blob;
                    new_table = t\<lparr>tmeta := existing\<rparr>
                in case (if dest = Some src then None else dest) of
                     None \<Rightarrow> temp_write_replace i new_table src fs
                   | Some d \<Rightarrow>
                       (case mkdir_parents i (parent d) fs of
                          (Inl e, fs1) \<Rightarrow> (Inl e, fs1)
                        | (Inr _, fs1) \<Rightarrow> pq_write_table i new_table d fs1))))"

text \<open>\<open>d.update(other)\<close>\<close>

definition dict_update :: "('k \<times> 'v) list \<Rightarrow> ('k \<times> 'v) list \<Rightarrow> ('k \<times> 'v) list" where
  "dict_update d other = foldl (\<lambda>acc kv. dict_set acc (fst kv) (snd kv)) d other"

text \<open>
  \<open>rewrite_parquet_with_metadata\<close> of \<open>convert_parquet_hf_list_to_sequence.py\<close>: every
  entry of \<open>new_metadata\<close> goes into the table's schema metadata, then temporary file
  and replace.
\<close>

definition rewrite_parquet_with_metadata ::
  "io \<Rightarrow> path \<Rightarrow> kvmeta \<Rightarrow> fs \<Rightarrow> (pyerr + unit) \<times> fs" where
  "rewrite_parquet_with_metadata i src new_metadata fs =
     (case pq_read_table i fs src of
        Inl e \<Rightarrow> (Inl e, fs)
      | Inr t \<Rightarrow>
          (let existing = dict_update (tmeta t) new_metadata;
               new_table = t\<lparr>tmeta := existing\<rparr>
           in temp_write_replace i new_table src fs))"

text \<open>
  \<open>normalize_file\<close> of \<open>normalize_parquet_hf_schema_meta.py\<close>: \<open>(changed, message)\<close>, and
  the file system afterwards. Its write goes straight to the path of the file.
\<close>

datatype nmsg = NoHfMetadata | InvalidHfJson | SchemaUpToDate | WouldUpdate | Updated

definition normalize_file ::
  "loader \<Rightarrow> (64 word \<Rightarrow> pystr) \<Rightarrow> io \<Rightarrow> path \<Rightarrow> bool \<Rightarrow> fs \<Rightarrow> (pyerr + bool \<times> nmsg) \<times> fs" where
  "normalize_file loads fr i p dry_run fs =
     (case pq_open i fs p of
        Inl e \<Rightarrow> (Inl e, fs)
      | Inr f \<Rightarrow>
          (let hf_file = map_of (file_meta f) ''huggingface'';
               hf_schema = map_of (schema_meta f) ''huggingface''
           in if \<not> bytes_truthy hf_file \<and> \<not> bytes_truthy hf_schema then
                (Inr (False, NoHfMetadata), fs)
              else
                (let src = (if bytes_truthy hf_file then hf_file else hf_schema)
                 in case src of
                      None \<Rightarrow> (Inr (False, InvalidHfJson), fs)
                    | Some sb \<Rightarrow>
                        (case loads sb of
                           None \<Rightarrow> (Inr (False, InvalidHfJson), fs)
                         | Some src_json \<Rightarrow>
                             if hf_schema = src then (Inr (False, SchemaUpToDate), fs)
                             else if dry_run then (Inr (True, WouldUpdate), fs)
                             else
                               (case pq_read_table i fs p of
                                  Inl e \<Rightarrow> (Inl e, fs)
                                | Inr t \<Rightarrow>
                                    (case dumps_utf8 fr src_json of
                                       Inl e \<Rightarrow> (Inl e, fs)
                                     | Inr blob \<Rightarrow>
                                         (let existing = dict_set (tmeta t) ''huggingface'' blob;
                                              new_table = t\<lparr>tmeta := existing\<rparr>
                                          in case pq_write_table i new_table p fs of
                                               (Inl e, fs1) \<Rightarrow> (Inl e, fs1)
                                             | (Inr _, fs1) \<Rightarrow> (Inr (True, Updated), fs1))))))))"

section \<open>The two main functions\<close>

datatype preference = PreferFile | PreferSchema | PreferAuto

text \<open>
  The parsed command line, with \<open>--root\<close> and \<open>--out\<close> resolved to absolute paths.
  A \<open>Path\<close> is always true, so \<open>if args.out\<close> asks whether the option was given.
\<close>

record args =
  arg_root :: path
  arg_out :: "path option"
  arg_apply :: bool
  arg_limit :: "int option"
  arg_prefer :: preference

text \<open>The lines the scripts print, one constructor for each \<open>print\<close>.\<close>

datatype report =
    DryMkdir path
  | CopyOther bool path path
  | CopyNoMeta bool path path
  | CopyNoChange bool path path
  | SkipNoMeta path
  | OkNoChange path
  | AppliedLine path int "pystr list"
  | DryRunLine path int "pystr list"

text \<open>The counters of a run, the file system and the lines printed so far.\<close>

record run =
  seen_parquet :: int
  affected_parquet :: int
  changed_entries :: int
  copied_other :: int
  total_parquet :: int
  files :: fs
  printed :: "report list"

definition start :: "fs \<Rightarrow> run" where
  "start fs =
     \<lparr>seen_parquet = 0, affected_parquet = 0, changed_entries = 0, copied_other = 0,
      total_parquet = 0, files = fs, printed = []\<rparr>"

text \<open>\<open>dest.parent.mkdir(parents=True, exist_ok=True); shutil.copy2(path, dest)\<close>\<close>

definition mirror_copy :: "io \<Rightarrow> path \<Rightarrow> path \<Rightarrow> fs \<Rightarrow> (pyerr + unit) \<times> fs" where
  "mirror_copy i p dest fs =
     (case mkdir_parents i (parent dest) fs of
        (Inl e, fs1) \<Rightarrow> (Inl e, fs1)
      | (Inr _, fs1) \<Rightarrow> copy2 i p dest fs1)"

subsection \<open>\<open>fix_parquet_hf_metadata.py\<close>\<close>

text \<open>\<open>out_root = (out_root_base / root_resolved.name) if out_root_base else None\<close>\<close>

definition out_root :: "args \<Rightarrow> path option" where
  "out_root a =
     (case arg_out a of
        None \<Rightarrow> None
      | Some ob \<Rightarrow> Some (path_join ob (path_name (arg_root a))))"

text \<open>
  The forced preference: the other blob replaces the reader's choice when it is present
  and parses, and is ignored otherwise.
\<close>

definition choose_json :: "loader \<Rightarrow> preference \<Rightarrow> HFMeta \<Rightarrow> json" where
  "choose_json loads p m =
     (if p = PreferSchema \<and> bytes_truthy (raw_schema m) then
        (case raw_schema m of
           Some b \<Rightarrow> (case loads b of Some d \<Rightarrow> d | None \<Rightarrow> json m)
         | None \<Rightarrow> json m)
      else if p = PreferFile \<and> bytes_truthy (raw_file m) then
        (case raw_file m of
           Some b \<Rightarrow> (case loads b of Some d \<Rightarrow> d | None \<Rightarrow> json m)
         | None \<Rightarrow> json m)
      else json m)"

text \<open>
  \<open>schema_same\<close>, \<open>file_same\<close> and \<open>needs_write\<close> of \<open>main\<close>.
\<close>

definition needs_write :: "HFMeta \<Rightarrow> bytes \<Rightarrow> bool" where
  "needs_write m target_bytes =
     (let schema_same = (raw_schema m = Some target_bytes);
          file_same = (if raw_file m \<noteq> None then raw_file m = Some target_bytes else False)
      in \<not> (schema_same \<and> file_same))"

text \<open>
  The branch \<open>if hf_meta.source == "none" or hf_meta.json is None\<close>: the file is copied
  to the mirror, or skipped in place.
\<close>

definition fix_no_meta :: "args \<Rightarrow> io \<Rightarrow> path \<Rightarrow> path \<Rightarrow> run \<Rightarrow> (pyerr + unit) \<times> run" where
  "fix_no_meta a i p rel s =
     (case out_root a of
        Some ot \<Rightarrow>
          (let dest = ot @ rel
           in if arg_apply a then
                (case mirror_copy i p dest (files s) of
                   (Inl e, fs') \<Rightarrow> (Inl e, s\<lparr>files := fs'\<rparr>)
                 | (Inr _, fs') \<Rightarrow>
                     (Inr (), s\<lparr>files := fs', printed := printed s @ [CopyNoMeta True p dest]\<rparr>))
              else (Inr (), s\<lparr>printed := printed s @ [CopyNoMeta False p dest]\<rparr>))
      | None \<Rightarrow> (Inr (), s\<lparr>printed := printed s @ [SkipNoMeta p]\<rparr>))"

text \<open>
  The rest of the body, from \<open>chosen_json = hf_meta.json\<close> on: choice of the source,
  rewrite, comparison with the stored blobs, and the write.
\<close>

definition fix_rewrite ::
  "loader \<Rightarrow> (64 word \<Rightarrow> pystr) \<Rightarrow> args \<Rightarrow> io \<Rightarrow> path \<Rightarrow> path \<Rightarrow> HFMeta \<Rightarrow> run \<Rightarrow> (pyerr + unit) \<times> run" where
  "fix_rewrite loads fr a i p rel hf_meta s =
     (case convert_list_to_sequence (choose_json loads (arg_prefer a) hf_meta) of
        Inl e \<Rightarrow> (Inl e, s)
      | Inr ret \<Rightarrow>
          (case unpack3 ret of
             Inl e \<Rightarrow> (Inl e, s)
           | Inr (updated_json, n_changes, changed_names) \<Rightarrow>
               (case dumps_utf8 fr updated_json of
                  Inl e \<Rightarrow> (Inl e, s)
                | Inr target_bytes \<Rightarrow>
                    (let nw = needs_write hf_meta target_bytes
                     in if \<not> nw \<and> out_root a = None then
                          (Inr (), s\<lparr>printed := printed s @ [OkNoChange p]\<rparr>)
                        else
                          (let s' = s\<lparr>affected_parquet := affected_parquet s + (if nw then 1 else 0),
                                      changed_entries := changed_entries s + n_changes\<rparr>;
                               dest = map_option (\<lambda>ot. ot @ rel) (out_root a);
                               shown = (case dest of Some d \<Rightarrow> d | None \<Rightarrow> p)
                           in if arg_apply a then
                                (case write_with_hf_metadata fr i p dest updated_json (files s') of
                                   (Inl e, fs') \<Rightarrow> (Inl e, s'\<lparr>files := fs'\<rparr>)
                                 | (Inr _, fs') \<Rightarrow>
                                     (Inr (), s'\<lparr>files := fs',
                                                 printed := printed s' @
                                                   [AppliedLine shown n_changes changed_names]\<rparr>))
                              else
                                (Inr (), s'\<lparr>printed := printed s' @
                                              [DryRunLine shown n_changes changed_names]\<rparr>))))))"

text \<open>The body of the loop for a path with the suffix \<open>.parquet\<close>.\<close>

definition fix_parquet ::
  "loader \<Rightarrow> (64 word \<Rightarrow> pystr) \<Rightarrow> args \<Rightarrow> io \<Rightarrow> path \<Rightarrow> path \<Rightarrow> run \<Rightarrow> (pyerr + unit) \<times> run" where
  "fix_parquet loads fr a i p rel s0 =
     (let s1 = s0\<lparr>total_parquet := total_parquet s0 + 1\<rparr>
      in if (case arg_limit a of None \<Rightarrow> False | Some l \<Rightarrow> l \<le> seen_parquet s1) then (Inr (), s1)
         else
           (let s = s1\<lparr>seen_parquet := seen_parquet s1 + 1\<rparr>
            in case pq_open i (files s) p of
                 Inl e \<Rightarrow> (Inl e, s)
               | Inr f \<Rightarrow>
                   (let hf_meta = read_hf_metadata loads f
                    in if source hf_meta = SrcNone \<or> json hf_meta = JNull then fix_no_meta a i p rel s
                       else fix_rewrite loads fr a i p rel hf_meta s)))"

text \<open>
  One turn of \<open>for path, is_dir in iter_all_paths(root_resolved)\<close>. What \<open>os.walk\<close>
  yields is an input: the path, whether it is a directory, and what the operating system
  does during this turn.
\<close>

definition fix_entry ::
  "loader \<Rightarrow> (64 word \<Rightarrow> pystr) \<Rightarrow> args \<Rightarrow> path \<times> bool \<times> io \<Rightarrow> run \<Rightarrow> (pyerr + unit) \<times> run" where
  "fix_entry loads fr a entry s =
     (case entry of
        (p, is_dir, i) \<Rightarrow>
          (case relative_to p (arg_root a) of
             Inl e \<Rightarrow> (Inl e, s)
           | Inr rel \<Rightarrow>
               if is_dir then
                 (case out_root a of
                    Some ot \<Rightarrow>
                      (let dest_dir = ot @ rel
                       in if arg_apply a then
                            (case mkdir_parents i dest_dir (files s) of
                               (Inl e, fs') \<Rightarrow> (Inl e, s\<lparr>files := fs'\<rparr>)
                             | (Inr _, fs') \<Rightarrow> (Inr (), s\<lparr>files := fs'\<rparr>))
                          else (Inr (), s\<lparr>printed := printed s @ [DryMkdir dest_dir]\<rparr>))
                  | None \<Rightarrow> (Inr (), s))
               else if \<not> has_parquet_suffix p then
                 (case out_root a of
                    Some ot \<Rightarrow>
                      (let dest = ot @ rel
                       in if arg_apply a then
                            (case mirror_copy i p dest (files s) of
                               (Inl e, fs') \<Rightarrow> (Inl e, s\<lparr>files := fs'\<rparr>)
                             | (Inr _, fs') \<Rightarrow>
                                 (Inr (), s\<lparr>copied_other := copied_other s + 1, files := fs',
                                            printed := printed s @ [CopyOther True p dest]\<rparr>))
                          else
                            (Inr (), s\<lparr>copied_other := copied_other s + 1,
                                       printed := printed s @ [CopyOther False p dest]\<rparr>))
                  | None \<Rightarrow> (Inr (), s))
               else fix_parquet loads fr a i p rel s))"

fun fix_loop ::
  "loader \<Rightarrow> (64 word \<Rightarrow> pystr) \<Rightarrow> args \<Rightarrow> (path \<times> bool \<times> io) list \<Rightarrow> run \<Rightarrow> (pyerr + unit) \<times> run" where
  "fix_loop loads fr a [] s = (Inr (), s)"
| "fix_loop loads fr a (entry # rest) s =
     (case fix_entry loads fr a entry s of
        (Inl e, s') \<Rightarrow> (Inl e, s')
      | (Inr _, s') \<Rightarrow> fix_loop loads fr a rest s')"

text \<open>\<open>main\<close> of \<open>fix_parquet_hf_metadata.py\<close>; an exception ends the run where it is.\<close>

definition main ::
  "loader \<Rightarrow> (64 word \<Rightarrow> pystr) \<Rightarrow> args \<Rightarrow> (path \<times> bool \<times> io) list \<Rightarrow> fs \<Rightarrow> (pyerr + unit) \<times> run" where
  "main loads fr a walk fs =
     (if fs (arg_root a) = None then (Inl SystemExit, start fs)
      else fix_loop loads fr a walk (start fs))"

subsection \<open>\<open>convert_parquet_hf_list_to_sequence.py\<close>\<close>

text \<open>
  The \<open>--apply\<close> branch for a file with changes: the footer's metadata with the new blob
  under \<open>huggingface\<close> is merged into the schema metadata, and the table is written to
  the mirror or rewritten in place.
\<close>

definition cv_write ::
  "(64 word \<Rightarrow> pystr) \<Rightarrow> args \<Rightarrow> io \<Rightarrow> path \<Rightarrow> path \<Rightarrow> kvmeta \<Rightarrow> json \<Rightarrow> fs \<Rightarrow> (pyerr + unit) \<times> fs" where
  "cv_write fr a i p rel meta updated_hf fs =
     (case dumps_utf8 fr updated_hf of
        Inl e \<Rightarrow> (Inl e, fs)
      | Inr blob \<Rightarrow>
          (let new_meta = dict_set meta ''huggingface'' blob
           in case arg_out a of
                Some ot \<Rightarrow>
                  (let dest = ot @ rel
                   in case mkdir_parents i (parent dest) fs of
                        (Inl e, fs1) \<Rightarrow> (Inl e, fs1)
                      | (Inr _, fs1) \<Rightarrow>
                          (case pq_read_table i fs1 p of
                             Inl e \<Rightarrow> (Inl e, fs1)
                           | Inr t \<Rightarrow>
                               (let existing = dict_update (tmeta t) new_meta;
                                    new_table = t\<lparr>tmeta := existing\<rparr>
                                in pq_write_table i new_table dest fs1)))
              | None \<Rightarrow> rewrite_parquet_with_metadata i p new_meta fs))"

text \<open>The branch \<open>if hf is None\<close>: copy to the mirror; in place, nothing.\<close>

definition cv_no_meta :: "args \<Rightarrow> io \<Rightarrow> path \<Rightarrow> path \<Rightarrow> run \<Rightarrow> (pyerr + unit) \<times> run" where
  "cv_no_meta a i p rel s =
     (case arg_out a of
        Some ot \<Rightarrow>
          (let dest = ot @ rel
           in if arg_apply a then
                (case mirror_copy i p dest (files s) of
                   (Inl e, fs') \<Rightarrow> (Inl e, s\<lparr>files := fs'\<rparr>)
                 | (Inr _, fs') \<Rightarrow>
                     (Inr (), s\<lparr>files := fs', printed := printed s @ [CopyNoMeta True p dest]\<rparr>))
              else (Inr (), s\<lparr>printed := printed s @ [CopyNoMeta False p dest]\<rparr>))
      | None \<Rightarrow> (Inr (), s))"

definition cv_parquet ::
  "loader \<Rightarrow> (64 word \<Rightarrow> pystr) \<Rightarrow> args \<Rightarrow> io \<Rightarrow> path \<Rightarrow> path \<Rightarrow> run \<Rightarrow> (pyerr + unit) \<times> run" where
  "cv_parquet loads fr a i p rel s0 =
     (if (case arg_limit a of None \<Rightarrow> False | Some l \<Rightarrow> l \<le> seen_parquet s0) then (Inr (), s0)
      else
        (let s = s0\<lparr>seen_parquet := seen_parquet s0 + 1, total_parquet := total_parquet s0 + 1\<rparr>
         in case pq_read_metadata i (files s) p of
              Inl e \<Rightarrow> (Inl e, s)
            | Inr md \<Rightarrow>
                (case load_hf_metadata loads md of
                   (hf, meta) \<Rightarrow>
                     if hf = JNull then cv_no_meta a i p rel s
                     else
                       (case convert_list_to_sequence_cv hf of
                          Inl e \<Rightarrow> (Inl e, s)
                        | Inr (updated_hf, n_changes) \<Rightarrow>
                            if n_changes = 0 then
                              (case arg_out a of
                                 Some ot \<Rightarrow>
                                   (let dest = ot @ rel
                                    in if arg_apply a then
                                         (case mirror_copy i p dest (files s) of
                                            (Inl e, fs') \<Rightarrow> (Inl e, s\<lparr>files := fs'\<rparr>)
                                          | (Inr _, fs') \<Rightarrow>
                                              (Inr (), s\<lparr>files := fs',
                                                         printed := printed s @ [CopyNoChange True p dest]\<rparr>))
                                       else
                                         (Inr (), s\<lparr>printed := printed s @ [CopyNoChange False p dest]\<rparr>))
                               | None \<Rightarrow> (Inr (), s))
                            else
                              (let s' = s\<lparr>affected_parquet := affected_parquet s + 1,
                                          changed_entries := changed_entries s + n_changes\<rparr>;
                                   shown = (case arg_out a of Some ot \<Rightarrow> ot @ rel | None \<Rightarrow> p)
                               in if arg_apply a then
                                    (case cv_write fr a i p rel meta updated_hf (files s') of
                                       (Inl e, fs') \<Rightarrow> (Inl e, s'\<lparr>files := fs'\<rparr>)
                                     | (Inr _, fs') \<Rightarrow>
                                         (Inr (), s'\<lparr>files := fs',
                                                     printed := printed s' @ [AppliedLine shown n_changes []]\<rparr>))
                                  else
                                    (Inr (), s'\<lparr>printed := printed s' @ [DryRunLine shown n_changes []]\<rparr>))))))"

definition cv_entry ::
  "loader \<Rightarrow> (64 word \<Rightarrow> pystr) \<Rightarrow> args \<Rightarrow> path \<times> bool \<times> io \<Rightarrow> run \<Rightarrow> (pyerr + unit) \<times> run" where
  "cv_entry loads fr a entry s =
     (case entry of
        (p, is_dir, i) \<Rightarrow>
          (case relative_to p (arg_root a) of
             Inl e \<Rightarrow> (Inl e, s)
           | Inr rel \<Rightarrow>
               if is_dir then
                 (case arg_out a of
                    Some ot \<Rightarrow>
                      (let dest_dir = ot @ rel
                       in if arg_apply a then
                            (case mkdir_parents i dest_dir (files s) of
                               (Inl e, fs') \<Rightarrow> (Inl e, s\<lparr>files := fs'\<rparr>)
                             | (Inr _, fs') \<Rightarrow> (Inr (), s\<lparr>files := fs'\<rparr>))
                          else (Inr (), s\<lparr>printed := printed s @ [DryMkdir dest_dir]\<rparr>))
                  | None \<Rightarrow> (Inr (), s))
               else if has_parquet_suffix p then cv_parquet loads fr a i p rel s
               else
                 (case arg_out a of
                    Some ot \<Rightarrow>
                      (let dest = ot @ rel
                       in if arg_apply a then
                            (case mirror_copy i p dest (files s) of
                               (Inl e, fs') \<Rightarrow> (Inl e, s\<lparr>files := fs'\<rparr>)
                             | (Inr _, fs') \<Rightarrow>
                                 (Inr (), s\<lparr>copied_other := copied_other s + 1, files := fs',
                                            printed := printed s @ [CopyOther True p dest]\<rparr>))
                          else
                            (Inr (), s\<lparr>copied_other := copied_other s + 1,
                                       printed := printed s @ [CopyOther False p dest]\<rparr>))
                  | None \<Rightarrow> (Inr (), s))))"

fun cv_loop ::
  "loader \<Rightarrow> (64 word \<Rightarrow> pystr) \<Rightarrow> args \<Rightarrow> (path \<times> bool \<times> io) list \<Rightarrow> run \<Rightarrow> (pyerr + unit) \<times> run" where
  "cv_loop loads fr a [] s = (Inr (), s)"
| "cv_loop loads fr a (entry # rest) s =
     (case cv_entry loads fr a entry s of
        (Inl e, s') \<Rightarrow> (Inl e, s')
      | (Inr _, s') \<Rightarrow> cv_loop loads fr a rest s')"

text \<open>\<open>main\<close> of \<open>convert_parquet_hf_list_to_sequence.py\<close>.\<close>

definition main_cv ::
  "loader \<Rightarrow> (64 word \<Rightarrow> pystr) \<Rightarrow> args \<Rightarrow> (path \<times> bool \<times> io) list \<Rightarrow> fs \<Rightarrow> (pyerr + unit) \<times> run" where
  "main_cv loads fr a walk fs =
     (if fs (arg_root a) = None then (Inl SystemExit, start fs)
      else cv_loop loads fr a walk (start fs))"

section \<open>The rewrite in the words of the specification\<close>

text \<open>
  Written from the specification, not from the code: an entry is tagged \<open>List\<close> when it
  is an object whose \<open>_type\<close> field is the string \<open>"List"\<close>; \<open>list_tagged\<close> are the
  entries of a feature map that are, in their order; and what the specification asks of
  one entry is that a tagged one gets \<open>_type\<close> set to \<open>"Sequence"\<close> and any other stays
  as it is.
\<close>

definition tagged_list :: "json \<Rightarrow> bool" where
  "tagged_list v =
     (case v of
        JObj skvs \<Rightarrow> map_of skvs (u ''_type'') = Some (JStr (u ''List''))
      | _ \<Rightarrow> False)"

definition list_tagged :: "(pystr \<times> json) list \<Rightarrow> (pystr \<times> json) list" where
  "list_tagged feats = filter (\<lambda>e. tagged_list (snd e)) feats"

definition rewrite_entry :: "pystr \<times> json \<Rightarrow> pystr \<times> json" where
  "rewrite_entry e =
     (case snd e of
        JObj skvs \<Rightarrow>
          if map_of skvs (u ''_type'') = Some (JStr (u ''List''))
          then (fst e, JObj (dict_set skvs (u ''_type'') (JStr (u ''Sequence''))))
          else e
      | _ \<Rightarrow> e)"

section \<open>Sample documents and files\<close>

text \<open>
  The end-to-end document of the specification, with a nested \<open>List\<close> tag that must stay:
  \<open>{"info": {"features": {"a": {"_type": "List", "feature": {"_type": "List"}},
  "b": {"_type": "Value"}}}}\<close>.
\<close>

definition sample_feats :: "(pystr \<times> json) list" where
  "sample_feats =
     [(u ''a'', JObj [(u ''_type'', JStr (u ''List'')),
                      (u ''feature'', JObj [(u ''_type'', JStr (u ''List''))])]),
      (u ''b'', JObj [(u ''_type'', JStr (u ''Value''))])]"

definition sample_info :: "(pystr \<times> json) list" where
  "sample_info = [(u ''features'', JObj sample_feats)]"

definition sample_doc :: "(pystr \<times> json) list" where
  "sample_doc = [(u ''info'', JObj sample_info)]"

definition sample_feats_done :: "(pystr \<times> json) list" where
  "sample_feats_done =
     [(u ''a'', JObj [(u ''_type'', JStr (u ''Sequence'')),
                      (u ''feature'', JObj [(u ''_type'', JStr (u ''List''))])]),
      (u ''b'', JObj [(u ''_type'', JStr (u ''Value''))])]"

definition sample_doc_done :: "(pystr \<times> json) list" where
  "sample_doc_done = [(u ''info'', JObj [(u ''features'', JObj sample_feats_done)])]"

text \<open>
  A printer for \<open>float\<close> in the samples, none of which holds a \<open>float\<close> other than
  \<open>nan\<close>, which \<open>json.dumps\<close> writes as \<open>NaN\<close>.
\<close>

definition sample_repr :: "64 word \<Rightarrow> pystr" where
  "sample_repr w = u ''NaN''"

section \<open>Whitespace between tokens\<close>

text \<open>
  "No extraneous whitespace" in the words of the specification: outside its string
  literals the text holds no space, tab, newline or carriage return. The scanner tracks
  whether it is inside a literal and whether the last character was a backslash.
\<close>

fun no_outer_space :: "bool \<Rightarrow> bool \<Rightarrow> bytes \<Rightarrow> bool" where
  "no_outer_space in_str esc [] = True"
| "no_outer_space in_str esc (c # cs) =
     (if in_str then
        (if esc then no_outer_space True False cs
         else if c = CHR 0x5C then no_outer_space True True cs
         else if c = CHR 0x22 then no_outer_space False False cs
         else no_outer_space True False cs)
      else if c = CHR 0x22 then no_outer_space True False cs
      else c \<notin> {CHR '' '', CHR 0x09, CHR 0x0A, CHR 0x0D} \<and> no_outer_space False False cs)"

text \<open>
  The two blobs of the sample document, before and after the rewrite, as
  \<open>json.dumps(..., ensure_ascii=False).encode("utf-8")\<close> writes them, a blob that is
  not JSON, and the blob of the document \<open>{"a": 1}\<close>, which has no feature map.
\<close>

definition blob_list :: bytes where
  "blob_list = ''{\"info\": {\"features\": {\"a\": {\"_type\": \"List\", \"feature\": {\"_type\": \"List\"}}, \"b\": {\"_type\": \"Value\"}}}}''"

definition blob_sequence :: bytes where
  "blob_sequence = ''{\"info\": {\"features\": {\"a\": {\"_type\": \"Sequence\", \"feature\": {\"_type\": \"List\"}}, \"b\": {\"_type\": \"Value\"}}}}''"

definition blob_broken :: bytes where
  "blob_broken = ''{''"

definition blob_plain :: bytes where
  "blob_plain = ''{\"a\": 1}''"

definition plain_doc :: "(pystr \<times> json) list" where
  "plain_doc = [(u ''a'', JInt 1)]"

text \<open>
  \<open>json.loads\<close> on the blobs of the samples: the three documents parse, everything else
  used below (\<open>blob_broken\<close>) raises.
\<close>

definition sample_loads :: loader where
  "sample_loads b =
     (if b = blob_list then Some (JObj sample_doc)
      else if b = blob_sequence then Some (JObj sample_doc_done)
      else if b = blob_plain then Some (JObj plain_doc)
      else None)"

text \<open>
  The serialised schemas of the samples, one for each schema metadata that occurs, and
  what \<open>pyarrow\<close> packs and unpacks on them.
\<close>

definition packed_list :: bytes where
  "packed_list = ''schema with List''"

definition packed_sequence :: bytes where
  "packed_sequence = ''schema with Sequence''"

definition packed_plain :: bytes where
  "packed_plain = ''schema with a''"

definition packed_empty :: bytes where
  "packed_empty = ''schema''"

definition sample_pack :: "kvmeta \<Rightarrow> bytes" where
  "sample_pack m =
     (if m = [(''huggingface'', blob_list)] then packed_list
      else if m = [(''huggingface'', blob_sequence)] then packed_sequence
      else if m = [(''huggingface'', blob_plain)] then packed_plain
      else if m = [] then packed_empty
      else ''schema with something else'')"

definition sample_unpack :: "bytes \<Rightarrow> kvmeta option" where
  "sample_unpack x =
     (if x = packed_list then Some [(''huggingface'', blob_list)]
      else if x = packed_sequence then Some [(''huggingface'', blob_sequence)]
      else if x = packed_plain then Some [(''huggingface'', blob_plain)]
      else if x = packed_empty then Some []
      else None)"

text \<open>
  A directory \<open>/d\<close> with one Parquet file \<open>/d/f.parquet\<close>. \<open>list_file\<close> is what
  \<open>pq.write_table\<close> writes for a table whose schema metadata holds the sample document:
  it says \<open>List\<close> in the footer and in the schema. \<open>done_file\<close> says \<open>Sequence\<close> in
  both places. In \<open>drift_file\<close> the footer already says \<open>Sequence\<close> while the schema
  packed in its \<open>ARROW:schema\<close> entry still says \<open>List\<close>. \<open>plain_file\<close> holds the
  document \<open>{"a": 1}\<close> in both places.
\<close>

definition sample_path :: path where
  "sample_path = [''d'', ''f.parquet'']"

definition drift_file :: pqfile where
  "drift_file =
     \<lparr>file_meta = [(''huggingface'', blob_sequence), (''ARROW:schema'', packed_list)],
      schema_meta = [(''huggingface'', blob_list)],
      payload = ''rows''\<rparr>"

definition list_file :: pqfile where
  "list_file =
     \<lparr>file_meta = [(''huggingface'', blob_list), (''ARROW:schema'', packed_list)],
      schema_meta = [(''huggingface'', blob_list)],
      payload = ''rows''\<rparr>"

definition done_file :: pqfile where
  "done_file =
     \<lparr>file_meta = [(''huggingface'', blob_sequence), (''ARROW:schema'', packed_sequence)],
      schema_meta = [(''huggingface'', blob_sequence)],
      payload = ''rows''\<rparr>"

definition plain_file :: pqfile where
  "plain_file =
     \<lparr>file_meta = [(''huggingface'', blob_plain), (''ARROW:schema'', packed_plain)],
      schema_meta = [(''huggingface'', blob_plain)],
      payload = ''rows''\<rparr>"

definition fs_with :: "pqfile \<Rightarrow> fs" where
  "fs_with f = (Map.empty([] \<mapsto> Dir))([''d''] \<mapsto> Dir, sample_path \<mapsto> Parquet f)"

text \<open>
  An operating system on which everything works; one whose write breaks off and leaves
  the broken part behind, the removal by \<open>pq.write_table\<close> failing too; and one whose
  write breaks off and is cleaned up by \<open>pq.write_table\<close>.
\<close>

definition io_ok :: io where
  "io_ok =
     \<lparr>tmp_name = ''tmpab12cd34'', pack_schema = sample_pack, unpack_schema = sample_unpack,
      key_rank = length, read_fails = False, mktemp_fails = False, write_fault = WriteOk,
      cleanup_fails = False, replace_fails = False, unlink_fails = False, mkdir_budget = None,
      copy_fault = WriteOk\<rparr>"

definition io_partial :: io where
  "io_partial = io_ok\<lparr>write_fault := FailPartial ''PAR1'', cleanup_fails := True\<rparr>"

definition io_removed :: io where
  "io_removed = io_ok\<lparr>write_fault := FailPartial ''PAR1''\<rparr>"

text \<open>
  The command lines \<open>--root /d --apply\<close> and \<open>--root /d --out /d/o --apply\<close>.
\<close>

definition args_in_place :: args where
  "args_in_place =
     \<lparr>arg_root = [''d''], arg_out = None, arg_apply = True, arg_limit = None,
      arg_prefer = PreferAuto\<rparr>"

definition args_nested :: args where
  "args_nested = args_in_place\<lparr>arg_out := Some [''d'', ''o'']\<rparr>"

text \<open>
  A file whose footer blob is not JSON while its schema blob is, and a file whose only
  blob is empty.
\<close>

definition broken_file :: pqfile where
  "broken_file =
     \<lparr>file_meta = [(''huggingface'', blob_broken), (''ARROW:schema'', packed_list)],
      schema_meta = [(''huggingface'', blob_list)],
      payload = ''rows''\<rparr>"

definition empty_blob_file :: pqfile where
  "empty_blob_file =
     \<lparr>file_meta = [(''huggingface'', []), (''ARROW:schema'', packed_empty)],
      schema_meta = [],
      payload = ''rows''\<rparr>"

text \<open>
  For the claim that an empty blob counts as an absent one: a slot with the empty blob
  read as absent.
\<close>

definition absent_if_empty :: "bytes option \<Rightarrow> bytes option" where
  "absent_if_empty x = (if x = Some [] then None else x)"

text \<open>A file without any \<open>huggingface\<close> entry.\<close>

definition bare_file :: pqfile where
  "bare_file = \<lparr>file_meta = [], schema_meta = [], payload = ''rows''\<rparr>"

text \<open>
  What the reader reports for \<open>done_file\<close> and for \<open>list_file\<close>, and the file system
  after \<open>list_file\<close> has been rewritten in place.
\<close>

definition done_meta :: HFMeta where
  "done_meta =
     \<lparr>source = SrcFile, json = JObj sample_doc_done,
      raw_file = Some blob_sequence, raw_schema = Some blob_sequence\<rparr>"

definition list_meta :: HFMeta where
  "list_meta =
     \<lparr>source = SrcFile, json = JObj sample_doc,
      raw_file = Some blob_list, raw_schema = Some blob_list\<rparr>"

definition fs_rewritten :: fs where
  "fs_rewritten =
     (fs_with list_file)(sample_path \<mapsto>
        written_file io_ok \<lparr>tmeta = [(''huggingface'', blob_sequence)], tdata = ''rows''\<rparr>)"

section \<open>Separate trees\<close>

text \<open>
  Two directory trees are separate when neither root lies in the other tree. A path is
  on the line of a root when it lies in its tree or is one of its ancestors (the
  directories that \<open>mkdir(parents=True)\<close> may have to create on the way to the root).
\<close>

definition separate :: "path \<Rightarrow> path \<Rightarrow> bool" where
  "separate r ot = (\<not> prefix r ot \<and> \<not> prefix ot r)"

definition on_line :: "path \<Rightarrow> path \<Rightarrow> bool" where
  "on_line ot p = (prefix ot p \<or> prefix p ot)"

text \<open>
  What \<open>os.walk\<close> yields for the sample tree \<open>/d\<close>, and the command line
  \<open>--root /d --out /m --apply\<close>.
\<close>

definition sample_walk :: "(path \<times> bool \<times> io) list" where
  "sample_walk = [([''d''], True, io_ok), (sample_path, False, io_ok)]"

definition args_mirror :: args where
  "args_mirror = args_in_place\<lparr>arg_out := Some [''m'']\<rparr>"


section \<open>Dictionaries\<close>

lemma map_of_dict_set: "map_of (dict_set kvs k v) = (map_of kvs)(k \<mapsto> v)"
  by (induction kvs) (auto simp: fun_eq_iff)

lemma dict_set_same: "map_of kvs k = Some v \<Longrightarrow> dict_set kvs k v = kvs"
  by (induction kvs) (auto split: if_splits)

lemma dict_set_keys: "map_of kvs k = Some w \<Longrightarrow> map fst (dict_set kvs k v) = map fst kvs"
  by (induction kvs) (auto split: if_splits)

lemma dict_set_nonempty: "dict_set kvs k v \<noteq> []"
  by (cases kvs) (auto split: if_splits)

lemma map_of_insort_rank:
  "map_of (insort_key (\<lambda>kv. r (fst kv)) (k, v) kvs) = (map_of kvs)(k \<mapsto> v)"
  by (induction kvs) (auto simp: fun_eq_iff)

lemma map_of_sort_rank: "map_of (sort_key (\<lambda>kv. r (fst kv)) kvs) = map_of kvs"
proof (induction kvs)
  case Nil
  then show ?case by simp
next
  case (Cons e kvs)
  obtain k v where e: "e = (k, v)" by (cases e)
  show ?case
    using Cons.IH by (simp add: e map_of_insort_rank)
qed

section \<open>The feature rewriter\<close>

text \<open>
  The test of the code, \<open>isinstance(spec, dict) and spec.get("_type") == "List"\<close>, holds
  of the entries that the specification calls tagged \<open>List\<close> and of no other, and the
  assignment of the code does to such an entry what the specification asks.
\<close>

lemma tagged_list_iff:
  "tagged_list v \<longleftrightarrow> (\<exists>skvs. v = JObj skvs \<and> map_of skvs (u ''_type'') = Some (JStr (u ''List'')))"
  by (cases v) (simp_all add: tagged_list_def)

lemma is_list_spec_iff: "is_list_spec v \<longleftrightarrow> tagged_list v"
  by (cases v) (auto simp: tagged_list_def dict_get_def split: option.splits)

lemma rewrite_entry_code:
  "rewrite_entry e = (if is_list_spec (snd e) then (fst e, set_sequence (snd e)) else e)"
  by (cases e; cases "snd e") (auto simp: rewrite_entry_def is_list_spec_iff tagged_list_def)

lemma feats_loop_eq:
  "feats_loop feats c ns =
     (map rewrite_entry feats, c + int (length (list_tagged feats)), ns @ map fst (list_tagged feats))"
  by (induction feats arbitrary: c ns)
     (auto simp: rewrite_entry_code list_tagged_def is_list_spec_iff)

lemma feats_loop_cv_eq:
  "feats_loop_cv feats c = (map rewrite_entry feats, c + int (length (list_tagged feats)))"
  by (induction feats arbitrary: c)
     (auto simp: rewrite_entry_code list_tagged_def is_list_spec_iff)

lemma setdefault_noop:
  "map_of kvs (u ''info'') = Some (JObj ikvs) \<Longrightarrow> map_of ikvs (u ''features'') = Some f \<Longrightarrow>
   setdefault_info_features kvs f' = Inr kvs"
  by (simp add: setdefault_info_features_def dict_setdefault_def dict_set_same)

lemma not_list_after: "\<not> tagged_list (snd (rewrite_entry e))"
  by (cases e; cases "snd e") (auto simp: rewrite_entry_def tagged_list_def map_of_dict_set u_def)

lemma list_tagged_rewritten: "list_tagged (map rewrite_entry feats) = []"
  by (induction feats) (auto simp: list_tagged_def not_list_after)

lemma rewrite_entry_same: "\<not> tagged_list (snd e) \<Longrightarrow> rewrite_entry e = e"
  by (cases e; cases "snd e") (auto simp: rewrite_entry_def tagged_list_def)

lemma rewrite_entry_idem: "list_tagged feats = [] \<Longrightarrow> map rewrite_entry feats = feats"
  by (induction feats) (auto simp: list_tagged_def rewrite_entry_same split: if_splits)

text \<open>The result on a document that has a feature map.\<close>

lemma convert_shape:
  assumes "map_of kvs (u ''info'') = Some (JObj ikvs)"
      and "map_of ikvs (u ''features'') = Some (JObj feats)"
  shows "convert_list_to_sequence (JObj kvs) =
           Inr (Ret3 (JObj (dict_set kvs (u ''info'')
                        (JObj (dict_set ikvs (u ''features'') (JObj (map rewrite_entry feats))))))
                  (int (length (list_tagged feats))) (map fst (list_tagged feats)))"
proof -
  from assms(2) have ne: "ikvs \<noteq> []" by auto
  let ?kvs' = "dict_set kvs (u ''info'')
                 (JObj (dict_set ikvs (u ''features'') (JObj (map rewrite_entry feats))))"
  have sd: "setdefault_info_features ?kvs' (JObj (map rewrite_entry feats)) = Inr ?kvs'"
    by (rule setdefault_noop [where ikvs = "dict_set ikvs (u ''features'') (JObj (map rewrite_entry feats))"])
       (simp_all add: map_of_dict_set)
  show ?thesis
    using assms ne sd
    by (simp add: convert_list_to_sequence_def dict_get_def feats_loop_eq Let_def)
qed

lemma convert_cv_shape:
  assumes "map_of kvs (u ''info'') = Some (JObj ikvs)"
      and "map_of ikvs (u ''features'') = Some (JObj feats)"
  shows "convert_list_to_sequence_cv (JObj kvs) =
           Inr (JObj (dict_set kvs (u ''info'')
                        (JObj (dict_set ikvs (u ''features'') (JObj (map rewrite_entry feats))))),
                int (length (list_tagged feats)))"
proof -
  from assms(2) have ne: "ikvs \<noteq> []" by auto
  let ?kvs' = "dict_set kvs (u ''info'')
                 (JObj (dict_set ikvs (u ''features'') (JObj (map rewrite_entry feats))))"
  have sd: "setdefault_info_features ?kvs' (JObj (map rewrite_entry feats)) = Inr ?kvs'"
    by (rule setdefault_noop [where ikvs = "dict_set ikvs (u ''features'') (JObj (map rewrite_entry feats))"])
       (simp_all add: map_of_dict_set)
  show ?thesis
    using assms ne sd
    by (simp add: convert_list_to_sequence_cv_def dict_get_def feats_loop_cv_eq Let_def)
qed

text \<open>
  Every input falls into one of three classes: it has a feature map, or the call returns
  it in a pair with zero changes, or the call raises \<open>AttributeError\<close>.
\<close>

lemma convert_cases:
  "(\<exists>kvs ikvs feats. hf = JObj kvs \<and> map_of kvs (u ''info'') = Some (JObj ikvs) \<and>
        map_of ikvs (u ''features'') = Some (JObj feats))
   \<or> (convert_list_to_sequence hf = Inr (Ret2 hf 0) \<and> convert_list_to_sequence_cv hf = Inr (hf, 0))
   \<or> (convert_list_to_sequence hf = Inl AttributeError \<and>
       convert_list_to_sequence_cv hf = Inl AttributeError)"
proof (cases hf)
  case (JObj kvs)
  show ?thesis
  proof (cases "map_of kvs (u ''info'')")
    case None
    with JObj show ?thesis
      by (simp add: convert_list_to_sequence_def convert_list_to_sequence_cv_def dict_get_def)
  next
    case (Some got)
    show ?thesis
    proof (cases got)
      case (JObj ikvs)
      show ?thesis
      proof (cases "map_of ikvs (u ''features'')")
        case None
        with \<open>hf = JObj kvs\<close> Some JObj show ?thesis
          by (simp add: convert_list_to_sequence_def convert_list_to_sequence_cv_def dict_get_def)
      next
        case inner: (Some fv)
        with \<open>hf = JObj kvs\<close> Some JObj show ?thesis
          by (cases fv)
             (auto simp: convert_list_to_sequence_def convert_list_to_sequence_cv_def dict_get_def)
      qed
    qed (use \<open>hf = JObj kvs\<close> Some in
          \<open>auto simp: convert_list_to_sequence_def convert_list_to_sequence_cv_def dict_get_def\<close>)
  qed
qed (simp_all add: convert_list_to_sequence_def convert_list_to_sequence_cv_def)

text \<open>
  Claim C1. For a document \<open>kvs\<close> whose \<open>info\<close> is an object \<open>ikvs\<close> with a \<open>features\<close>
  object \<open>feats\<close>, both versions of the rewriter return the document with exactly the
  top-level entries of \<open>feats\<close> changed that are objects whose \<open>_type\<close> is the string
  \<open>"List"\<close>. Every such entry is changed: its \<open>_type\<close> is set to \<open>"Sequence"\<close> and nothing
  else in it is touched (its keys, their order and every other field, nested \<open>List\<close> tags
  included). Every entry that is not such an object stays as it is. Every other key of
  \<open>info\<close> and every other key of the document is as before, at the same position. The
  change count is the number of the entries of that shape and the names are theirs, in
  the order of the feature map.
\<close>

theorem rewriter_changes_exactly_list_entries:
  fixes kvs ikvs feats :: "(pystr \<times> json) list"
  defines "feats' \<equiv> map rewrite_entry feats"
  defines "ikvs' \<equiv> dict_set ikvs (u ''features'') (JObj feats')"
  defines "kvs' \<equiv> dict_set kvs (u ''info'') (JObj ikvs')"
  defines "hits \<equiv> filter (\<lambda>e. \<exists>skvs. snd e = JObj skvs \<and>
                                     map_of skvs (u ''_type'') = Some (JStr (u ''List''))) feats"
  assumes info: "map_of kvs (u ''info'') = Some (JObj ikvs)"
      and feats: "map_of ikvs (u ''features'') = Some (JObj feats)"
  shows "convert_list_to_sequence (JObj kvs) =
           Inr (Ret3 (JObj kvs') (int (length hits)) (map fst hits))
       \<and> convert_list_to_sequence_cv (JObj kvs) = Inr (JObj kvs', int (length hits))
       \<and> map fst kvs' = map fst kvs
       \<and> (\<forall>k. k \<noteq> u ''info'' \<longrightarrow> map_of kvs' k = map_of kvs k)
       \<and> map_of kvs' (u ''info'') = Some (JObj ikvs')
       \<and> map fst ikvs' = map fst ikvs
       \<and> (\<forall>k. k \<noteq> u ''features'' \<longrightarrow> map_of ikvs' k = map_of ikvs k)
       \<and> map_of ikvs' (u ''features'') = Some (JObj feats')
       \<and> length feats' = length feats
       \<and> (\<forall>n < length feats.
            fst (feats' ! n) = fst (feats ! n) \<and>
            (\<forall>skvs. snd (feats ! n) = JObj skvs \<and>
                    map_of skvs (u ''_type'') = Some (JStr (u ''List'')) \<longrightarrow>
               (\<exists>skvs'. snd (feats' ! n) = JObj skvs' \<and>
                  map_of skvs' (u ''_type'') = Some (JStr (u ''Sequence'')) \<and>
                  map fst skvs' = map fst skvs \<and>
                  (\<forall>k. k \<noteq> u ''_type'' \<longrightarrow> map_of skvs' k = map_of skvs k))) \<and>
            (\<not> (\<exists>skvs. snd (feats ! n) = JObj skvs \<and>
                    map_of skvs (u ''_type'') = Some (JStr (u ''List''))) \<longrightarrow>
               snd (feats' ! n) = snd (feats ! n)))"
proof -
  have h: "hits = list_tagged feats"
    unfolding hits_def list_tagged_def by (simp add: tagged_list_iff)
  have c1: "convert_list_to_sequence (JObj kvs) =
           Inr (Ret3 (JObj kvs') (int (length hits)) (map fst hits))"
    unfolding kvs'_def ikvs'_def feats'_def h by (rule convert_shape [OF info feats])
  have c2: "convert_list_to_sequence_cv (JObj kvs) = Inr (JObj kvs', int (length hits))"
    unfolding kvs'_def ikvs'_def feats'_def h by (rule convert_cv_shape [OF info feats])
  have k1: "map fst kvs' = map fst kvs"
    unfolding kvs'_def by (rule dict_set_keys [OF info])
  have k2: "\<forall>k. k \<noteq> u ''info'' \<longrightarrow> map_of kvs' k = map_of kvs k"
    unfolding kvs'_def by (simp add: map_of_dict_set)
  have k3: "map_of kvs' (u ''info'') = Some (JObj ikvs')"
    unfolding kvs'_def by (simp add: map_of_dict_set)
  have i1: "map fst ikvs' = map fst ikvs"
    unfolding ikvs'_def by (rule dict_set_keys [OF feats])
  have i2: "\<forall>k. k \<noteq> u ''features'' \<longrightarrow> map_of ikvs' k = map_of ikvs k"
    unfolding ikvs'_def by (simp add: map_of_dict_set)
  have i3: "map_of ikvs' (u ''features'') = Some (JObj feats')"
    unfolding ikvs'_def by (simp add: map_of_dict_set)
  have f1: "length feats' = length feats"
    unfolding feats'_def by simp
  have f2: "fst (feats' ! n) = fst (feats ! n) \<and>
            (\<forall>skvs. snd (feats ! n) = JObj skvs \<and>
                    map_of skvs (u ''_type'') = Some (JStr (u ''List'')) \<longrightarrow>
               (\<exists>skvs'. snd (feats' ! n) = JObj skvs' \<and>
                  map_of skvs' (u ''_type'') = Some (JStr (u ''Sequence'')) \<and>
                  map fst skvs' = map fst skvs \<and>
                  (\<forall>k. k \<noteq> u ''_type'' \<longrightarrow> map_of skvs' k = map_of skvs k))) \<and>
            (\<not> (\<exists>skvs. snd (feats ! n) = JObj skvs \<and>
                    map_of skvs (u ''_type'') = Some (JStr (u ''List''))) \<longrightarrow>
               snd (feats' ! n) = snd (feats ! n))"
    if n: "n < length feats" for n
  proof -
    obtain name spec where e: "feats ! n = (name, spec)" by (cases "feats ! n")
    have r: "feats' ! n = rewrite_entry (name, spec)"
      unfolding feats'_def using n e by simp
    have a: "fst (feats' ! n) = fst (feats ! n)"
      unfolding r e by (cases spec) (simp_all add: rewrite_entry_def)
    have b: "\<exists>skvs'. snd (feats' ! n) = JObj skvs' \<and>
                  map_of skvs' (u ''_type'') = Some (JStr (u ''Sequence'')) \<and>
                  map fst skvs' = map fst skvs \<and>
                  (\<forall>k. k \<noteq> u ''_type'' \<longrightarrow> map_of skvs' k = map_of skvs k)"
      if s: "snd (feats ! n) = JObj skvs" and t: "map_of skvs (u ''_type'') = Some (JStr (u ''List''))"
      for skvs
    proof -
      from s e have "spec = JObj skvs" by simp
      with t have "snd (feats' ! n) = JObj (dict_set skvs (u ''_type'') (JStr (u ''Sequence'')))"
        unfolding r by (simp add: rewrite_entry_def)
      then show ?thesis
        by (simp add: map_of_dict_set dict_set_keys [OF t])
    qed
    have c: "snd (feats' ! n) = snd (feats ! n)"
      if "\<not> (\<exists>skvs. snd (feats ! n) = JObj skvs \<and>
                    map_of skvs (u ''_type'') = Some (JStr (u ''List'')))"
    proof -
      from that e have "\<not> tagged_list (snd (name, spec))" by (simp add: tagged_list_iff)
      from rewrite_entry_same [OF this] show ?thesis unfolding r e by simp
    qed
    from a b c show ?thesis by blast
  qed
  from c1 c2 k1 k2 k3 i1 i2 i3 f1 f2 show ?thesis by blast
qed

theorem rewriter_changes_exactly_list_entries_witness:
  "map_of sample_doc (u ''info'') = Some (JObj sample_info) \<and>
   map_of sample_info (u ''features'') = Some (JObj sample_feats) \<and>
   filter (\<lambda>e. \<exists>skvs. snd e = JObj skvs \<and> map_of skvs (u ''_type'') = Some (JStr (u ''List'')))
     sample_feats = [sample_feats ! 0] \<and>
   convert_list_to_sequence (JObj sample_doc) = Inr (Ret3 (JObj sample_doc_done) 1 [u ''a'']) \<and>
   convert_list_to_sequence_cv (JObj sample_doc) = Inr (JObj sample_doc_done, 1)"
proof -
  have h1: "map_of sample_doc (u ''info'') = Some (JObj sample_info)"
    by (simp add: sample_doc_def)
  have h2: "map_of sample_info (u ''features'') = Some (JObj sample_feats)"
    by (simp add: sample_info_def)
  have t: "filter (\<lambda>e. \<exists>skvs. snd e = JObj skvs \<and> map_of skvs (u ''_type'') = Some (JStr (u ''List'')))
     sample_feats = [sample_feats ! 0]"
    by (simp add: sample_feats_def u_def)
  have n: "fst (sample_feats ! 0) = u ''a''" by (simp add: sample_feats_def)
  have d: "dict_set sample_doc (u ''info'')
             (JObj (dict_set sample_info (u ''features'') (JObj (map rewrite_entry sample_feats))))
           = sample_doc_done"
    by (simp add: sample_doc_def sample_info_def sample_feats_def sample_doc_done_def
          sample_feats_done_def rewrite_entry_def u_def)
  note T = rewriter_changes_exactly_list_entries [OF h1 h2]
  have r1: "convert_list_to_sequence (JObj sample_doc) = Inr (Ret3 (JObj sample_doc_done) 1 [u ''a''])"
    using T [THEN conjunct1] by (simp only: t d) (simp add: n)
  have r2: "convert_list_to_sequence_cv (JObj sample_doc) = Inr (JObj sample_doc_done, 1)"
    using T [THEN conjunct2, THEN conjunct1] by (simp only: t d) simp
  show ?thesis
    by (intro conjI) (fact h1 h2 t r1 r2)+
qed

text \<open>Applying the rewriter to a document it has rewritten.\<close>

lemma convert_rewritten:
  fixes kvs ikvs feats :: "(pystr \<times> json) list"
  defines "kvs' \<equiv> dict_set kvs (u ''info'')
                    (JObj (dict_set ikvs (u ''features'') (JObj (map rewrite_entry feats))))"
  shows "convert_list_to_sequence (JObj kvs') = Inr (Ret3 (JObj kvs') 0 [])"
    and "convert_list_to_sequence_cv (JObj kvs') = Inr (JObj kvs', 0)"
proof -
  let ?feats' = "map rewrite_entry feats"
  let ?ikvs' = "dict_set ikvs (u ''features'') (JObj ?feats')"
  have a1: "map_of kvs' (u ''info'') = Some (JObj ?ikvs')"
    unfolding kvs'_def by (simp add: map_of_dict_set)
  have a2: "map_of ?ikvs' (u ''features'') = Some (JObj ?feats')" by (simp add: map_of_dict_set)
  have again: "dict_set kvs' (u ''info'')
                 (JObj (dict_set ?ikvs' (u ''features'') (JObj (map rewrite_entry ?feats')))) = kvs'"
    by (simp only: rewrite_entry_idem [OF list_tagged_rewritten] dict_set_same [OF a2]
          dict_set_same [OF a1])
  show "convert_list_to_sequence (JObj kvs') = Inr (Ret3 (JObj kvs') 0 [])"
    using convert_shape [OF a1 a2] by (simp only: again list_tagged_rewritten) simp
  show "convert_list_to_sequence_cv (JObj kvs') = Inr (JObj kvs', 0)"
    using convert_cv_shape [OF a1 a2] by (simp only: again list_tagged_rewritten) simp
qed

text \<open>
  Claim C5. Whenever the rewriter returns, a second application to the structure it
  returned reports zero changes (and returns that structure again); and a change
  count of zero means the returned structure is the input. Both versions.
\<close>

theorem rewriter_idempotent:
  "(convert_list_to_sequence hf = Inr r \<longrightarrow>
      convert_list_to_sequence (ret_json r) = Inr (case r of Ret2 j n \<Rightarrow> Ret2 j 0 | Ret3 j n ns \<Rightarrow> Ret3 j 0 []) \<and>
      (ret_changes r = 0 \<longrightarrow> ret_json r = hf)) \<and>
   (convert_list_to_sequence_cv hf = Inr (j, n) \<longrightarrow>
      convert_list_to_sequence_cv j = Inr (j, 0) \<and> (n = 0 \<longrightarrow> j = hf))"
proof -
  consider
    (feat) kvs ikvs feats where "hf = JObj kvs" "map_of kvs (u ''info'') = Some (JObj ikvs)"
        "map_of ikvs (u ''features'') = Some (JObj feats)"
  | (pair) "convert_list_to_sequence hf = Inr (Ret2 hf 0)" "convert_list_to_sequence_cv hf = Inr (hf, 0)"
  | (err) "convert_list_to_sequence hf = Inl AttributeError"
          "convert_list_to_sequence_cv hf = Inl AttributeError"
    using convert_cases [of hf] by blast
  then show ?thesis
  proof cases
    case feat
    let ?kvs' = "dict_set kvs (u ''info'')
                   (JObj (dict_set ikvs (u ''features'') (JObj (map rewrite_entry feats))))"
    have same: "list_tagged feats = [] \<Longrightarrow> ?kvs' = kvs"
      by (simp add: rewrite_entry_idem dict_set_same [OF feat(3)] dict_set_same [OF feat(2)])
    show ?thesis
      using convert_shape [OF feat(2,3)] convert_cv_shape [OF feat(2,3)]
        convert_rewritten [of kvs ikvs feats] same feat(1)
      by auto
  next
    case pair
    then show ?thesis by auto
  next
    case err
    then show ?thesis by auto
  qed
qed

theorem rewriter_idempotent_witness:
  "convert_list_to_sequence (JObj sample_doc) = Inr (Ret3 (JObj sample_doc_done) 1 [u ''a'']) \<and>
   convert_list_to_sequence (JObj sample_doc_done) = Inr (Ret3 (JObj sample_doc_done) 0 []) \<and>
   ret_changes (Ret3 (JObj sample_doc_done) 0 []) = 0 \<and>
   convert_list_to_sequence_cv (JObj sample_doc) = Inr (JObj sample_doc_done, 1) \<and>
   convert_list_to_sequence_cv (JObj sample_doc_done) = Inr (JObj sample_doc_done, 0)"
proof -
  have h1: "convert_list_to_sequence (JObj sample_doc) = Inr (Ret3 (JObj sample_doc_done) 1 [u ''a''])"
    by code_simp
  have h2: "convert_list_to_sequence_cv (JObj sample_doc) = Inr (JObj sample_doc_done, 1)"
    by code_simp
  have h3: "convert_list_to_sequence (JObj sample_doc_done) = Inr (Ret3 (JObj sample_doc_done) 0 [])"
    by code_simp
  have h4: "convert_list_to_sequence_cv (JObj sample_doc_done) = Inr (JObj sample_doc_done, 0)"
    by code_simp
  show ?thesis
    using h1 h2 h3 h4
      rewriter_idempotent [of "JObj sample_doc" "Ret3 (JObj sample_doc_done) 1 [u ''a'']"
         "JObj sample_doc_done" 1]
      rewriter_idempotent [of "JObj sample_doc_done" "Ret3 (JObj sample_doc_done) 0 []"
         "JObj sample_doc_done" 0]
    by simp
qed

text \<open>
  Without a feature map the caller in \<open>main\<close> never gets its three values: the call
  raises, or the pair it returns fails to unpack.
\<close>

lemma no_feature_map_no_triple:
  assumes "\<not> (\<exists>kvs ikvs feats. hf = JObj kvs \<and> map_of kvs (u ''info'') = Some (JObj ikvs) \<and>
             map_of ikvs (u ''features'') = Some (JObj feats))"
  shows "(case convert_list_to_sequence hf of Inl e \<Rightarrow> Inl e | Inr ret \<Rightarrow> unpack3 ret)
           \<in> {Inl ValueError, Inl AttributeError}"
  using convert_cases [of hf] assms by auto

text \<open>
  Claim C7. On an input without a feature map \<open>convert_list_to_sequence\<close> of
  \<open>fix_parquet_hf_metadata.py\<close> returns a pair, not the triple of its annotation: for the
  document \<open>{"a": 1}\<close> and for the list \<open>[]\<close> the call returns \<open>(hf, 0)\<close>, which the
  unpacking into three names in \<open>main\<close> turns into \<open>ValueError\<close>, so the run ends at
  that file; for \<open>{"info": "x"}\<close> the call itself raises \<open>AttributeError\<close>.
\<close>

theorem short_return_breaks_unpacking:
  "convert_list_to_sequence (JObj [(u ''a'', JInt 1)]) = Inr (Ret2 (JObj [(u ''a'', JInt 1)]) 0) \<and>
   unpack3 (Ret2 (JObj [(u ''a'', JInt 1)]) 0) = Inl ValueError \<and>
   convert_list_to_sequence (JArr []) = Inr (Ret2 (JArr []) 0) \<and>
   convert_list_to_sequence (JObj [(u ''info'', JStr (u ''x''))]) = Inl AttributeError \<and>
   fix_rewrite loads fr (a\<lparr>arg_prefer := PreferAuto\<rparr>) i p rel
     \<lparr>source = SrcFile, json = JObj [(u ''a'', JInt 1)], raw_file = Some b, raw_schema = rs\<rparr> s
   = (Inl ValueError, s)"
proof -
  have c: "convert_list_to_sequence (JObj [(u ''a'', JInt 1)]) = Inr (Ret2 (JObj [(u ''a'', JInt 1)]) 0)"
    by code_simp
  have l: "convert_list_to_sequence (JArr []) = Inr (Ret2 (JArr []) 0)"
    by code_simp
  have e: "convert_list_to_sequence (JObj [(u ''info'', JStr (u ''x''))]) = Inl AttributeError"
    by code_simp
  have m: "fix_rewrite loads fr (a\<lparr>arg_prefer := PreferAuto\<rparr>) i p rel
     \<lparr>source = SrcFile, json = JObj [(u ''a'', JInt 1)], raw_file = Some b, raw_schema = rs\<rparr> s
   = (Inl ValueError, s)"
    by (simp add: fix_rewrite_def choose_json_def c)
  from c l e m show ?thesis by simp
qed

section \<open>The serialisation\<close>

lemma set_join: "set (join sep xs) \<subseteq> set sep \<union> (\<Union>x\<in>set xs. set x)"
  by (induction sep xs rule: join.induct) auto

lemma hex_digit_printable: "0x20 \<le> hex_digit d"
  by (simp add: hex_digit_def)

lemma escape_char_printable: "c' \<in> set (escape_char c) \<Longrightarrow> 0x20 \<le> c'"
  unfolding escape_char_def
  by (simp split: if_splits; elim disjE; simp add: hex_digit_printable)

lemma basestring_printable: "c \<in> set (py_encode_basestring s) \<Longrightarrow> 0x20 \<le> c"
  unfolding py_encode_basestring_def
  using escape_char_printable by fastforce

lemma nat_repr_printable: "c \<in> set (nat_repr n) \<Longrightarrow> 0x20 \<le> c"
proof (induction n arbitrary: c rule: nat_repr.induct)
  case (1 n)
  show ?case
  proof (cases "n < 10")
    case True
    from "1.prems" have "c \<in> set [0x30 + n]" by (subst (asm) nat_repr.simps) (simp add: True)
    then show ?thesis by simp
  next
    case False
    from "1.prems" have "c \<in> set (nat_repr (n div 10) @ [0x30 + n mod 10])"
      by (subst (asm) nat_repr.simps) (simp add: False)
    then have "c \<in> set (nat_repr (n div 10)) \<or> c = 0x30 + n mod 10" by auto
    then show ?thesis using "1.IH" [OF False] by auto
  qed
qed

lemma int_repr_printable: "c \<in> set (int_repr n) \<Longrightarrow> 0x20 \<le> c"
  unfolding int_repr_def
  by (auto dest: nat_repr_printable split: if_splits)


lemma dumps_printable:
  "(\<forall>w. \<forall>c\<in>set (fr w). 0x20 \<le> c) \<Longrightarrow> c \<in> set (dumps fr x) \<Longrightarrow> 0x20 \<le> c"
proof (induction fr x arbitrary: c rule: dumps.induct)
  case (1 fr)
  then show ?case by (auto simp: u_def)
next
  case (2 fr b)
  then show ?case by (auto simp: u_def split: if_splits)
next
  case (3 fr i)
  then show ?case by (auto dest: int_repr_printable)
next
  case (4 fr w)
  then show ?case by auto
next
  case (5 fr s)
  then show ?case by (auto dest: basestring_printable)
next
  case (6 fr xs)
  from "6.prems" have "c \<in> set (u ''['') \<or> c \<in> set (u '']'') \<or> c \<in> set (join (u '', '') (map (dumps fr) xs))"
    by auto
  then show ?case
  proof (elim disjE)
    assume "c \<in> set (join (u '', '') (map (dumps fr) xs))"
    with set_join have "c \<in> set (u '', '') \<or> (\<exists>x\<in>set xs. c \<in> set (dumps fr x))" by fastforce
    then show ?thesis using "6.IH" "6.prems"(1) by (auto simp: u_def)
  qed (auto simp: u_def)
next
  case (7 fr kvs)
  let ?f = "\<lambda>e. py_encode_basestring (fst e) @ u '': '' @ dumps fr (snd e)"
  from "7.prems" have "c \<in> set (u ''{'') \<or> c \<in> set (u ''}'') \<or> c \<in> set (join (u '', '') (map ?f kvs))"
    by auto
  then show ?case
  proof (elim disjE)
    assume "c \<in> set (join (u '', '') (map ?f kvs))"
    with set_join have "c \<in> set (u '', '') \<or> (\<exists>e\<in>set kvs. c \<in> set (?f e))" by fastforce
    then show ?thesis using "7.IH" "7.prems"(1) by (auto simp: u_def dest: basestring_printable)
  qed (auto simp: u_def)
qed

lemma utf8_char_printable:
  assumes "utf8_char c = Some bs" and "0x20 \<le> c" and "b \<in> set bs"
  shows "(0x20::nat) \<le> of_char b"
proof -
  consider (a) "c < 0x80" | (b) "0x80 \<le> c" "c < 0x800" | (c) "0x800 \<le> c" "c < 0x10000"
    | (d) "0x10000 \<le> c" "c < 0x110000" | (e) "0x110000 \<le> c"
    by linarith
  then show ?thesis
  proof cases
    case a
    with assms have "b = char_of c" by (auto simp: utf8_char_def)
    with a assms(2) show ?thesis by (simp add: of_char_of)
  next
    case b
    with assms have "b = char_of (0xC0 + c div 64) \<or> b = char_of (0x80 + c mod 64)"
      by (auto simp: utf8_char_def)
    moreover from b have "0xC0 + c div 64 < 256" by simp
    moreover have "0x80 + c mod 64 < 256" by simp
    ultimately show ?thesis by auto
  next
    case c
    with assms have "b = char_of (0xE0 + c div 4096) \<or> b = char_of (0x80 + c div 64 mod 64)
        \<or> b = char_of (0x80 + c mod 64)"
      by (auto simp: utf8_char_def split: if_splits)
    moreover from c have "0xE0 + c div 4096 < 256" by simp
    moreover have "0x80 + c div 64 mod 64 < 256" "0x80 + c mod 64 < 256" by simp_all
    ultimately show ?thesis by auto
  next
    case d
    with assms have "b = char_of (0xF0 + c div 262144) \<or> b = char_of (0x80 + c div 4096 mod 64)
        \<or> b = char_of (0x80 + c div 64 mod 64) \<or> b = char_of (0x80 + c mod 64)"
      by (auto simp: utf8_char_def split: if_splits)
    moreover from d have "0xF0 + c div 262144 < 256" by simp
    moreover have "0x80 + c div 4096 mod 64 < 256" "0x80 + c div 64 mod 64 < 256"
      "0x80 + c mod 64 < 256" by simp_all
    ultimately show ?thesis by auto
  next
    case e
    with assms show ?thesis by (simp add: utf8_char_def)
  qed
qed

lemma encode_utf8_printable:
  "encode_utf8 s = Inr bs \<Longrightarrow> \<forall>c\<in>set s. 0x20 \<le> c \<Longrightarrow> b \<in> set bs \<Longrightarrow> (0x20::nat) \<le> of_char b"
proof (induction s arbitrary: bs)
  case Nil
  then show ?case by simp
next
  case (Cons c cs)
  from Cons.prems(1) obtain b1 bs1 where u: "utf8_char c = Some b1" and r: "encode_utf8 cs = Inr bs1"
    and bs: "bs = b1 @ bs1"
    by (auto split: option.splits sum.splits)
  from Cons.prems(3) bs have "b \<in> set b1 \<or> b \<in> set bs1" by simp
  then show ?case
  proof
    assume "b \<in> set b1"
    with u Cons.prems(2) show ?thesis by (auto intro: utf8_char_printable)
  next
    assume "b \<in> set bs1"
    with Cons.IH [OF r] Cons.prems(2) show ?thesis by simp
  qed
qed

section \<open>The file system\<close>

lemma named_temporary_file_Inr:
  "named_temporary_file i d fs = (Inr tp, fs1) \<Longrightarrow>
     tp = d @ [tmp_name i @ ''.parquet''] \<and> fs tp = None \<and> fs1 = fs(tp \<mapsto> Blob [])"
  by (auto simp: named_temporary_file_def Let_def split: if_splits)

lemma named_temporary_file_Inl:
  "named_temporary_file i d fs = (Inl e, fs1) \<Longrightarrow> fs1 = fs"
  by (auto simp: named_temporary_file_def Let_def split: if_splits)

lemma written_file_not_Dir [simp]: "written_file i t \<noteq> Dir"
  by (simp add: written_file_def split: option.splits)

lemma pq_write_table_Inr:
  "pq_write_table i t p fs = (Inr x, fs1) \<Longrightarrow> fs1 = fs(p \<mapsto> written_file i t)"
  by (auto simp: pq_write_table_def split: if_splits wfault.splits)

lemma pq_write_table_Inl:
  "pq_write_table i t p fs = (Inl e, fs1) \<Longrightarrow>
     fs1 = fs \<or> (\<exists>b. fs1 = fs(p \<mapsto> Blob b)) \<or> fs1 = fs(p := None)"
  by (auto simp: pq_write_table_def split: if_splits wfault.splits)

lemma os_replace_Inr:
  "os_replace i a b fs = (Inr x, fs1) \<Longrightarrow> fs1 = (fs(b := fs a))(a := None)"
  by (auto simp: os_replace_def split: if_splits)

lemma os_replace_Inl:
  "os_replace i a b fs = (Inl e, fs1) \<Longrightarrow> fs1 = fs"
  by (auto simp: os_replace_def split: if_splits)

lemma unlink_quiet_cases:
  "unlink_quiet i p fs = fs \<or> unlink_quiet i p fs = fs(p := None)"
  by (simp add: unlink_quiet_def)

lemma unlink_quiet_removes:
  "\<not> unlink_fails i \<Longrightarrow> fs p \<noteq> Some Dir \<Longrightarrow> unlink_quiet i p fs = fs(p := None)"
  by (simp add: unlink_quiet_def)

text \<open>The shared block: what it leaves behind, by outcome.\<close>

lemma temp_write_replace_ok:
  assumes "temp_write_replace i t src fs = (Inr x, fs')" and "fs src \<noteq> None"
  shows "fs' = fs(src \<mapsto> written_file i t)"
proof -
  let ?tp = "parent src @ [tmp_name i @ ''.parquet'']"
  from assms(1) obtain tp fs1 fs2 where
    n: "named_temporary_file i (parent src) fs = (Inr tp, fs1)" and
    w: "pq_write_table i t tp fs1 = (Inr (), fs2)" and
    r: "os_replace i tp src fs2 = (Inr (), fs')"
    by (auto simp: temp_write_replace_def split: prod.splits sum.splits)
  from named_temporary_file_Inr [OF n] have tp: "fs tp = None" and fs1: "fs1 = fs(tp \<mapsto> Blob [])"
    by blast+
  from tp assms(2) have ne: "tp \<noteq> src" by auto
  from pq_write_table_Inr [OF w] have fs2: "fs2 = fs1(tp \<mapsto> written_file i t)" .
  from os_replace_Inr [OF r] have "fs' = (fs2(src := fs2 tp))(tp := None)" .
  with fs1 fs2 ne tp show ?thesis by (auto simp: fun_eq_iff)
qed

lemma temp_write_replace_err:
  assumes "temp_write_replace i t src fs = (Inl e, fs')"
  shows "fs' = fs \<or> (\<exists>b. fs' = fs(parent src @ [tmp_name i @ ''.parquet''] \<mapsto> b) \<and>
                        fs (parent src @ [tmp_name i @ ''.parquet'']) = None \<and> unlink_fails i)"
proof -
  let ?tp = "parent src @ [tmp_name i @ ''.parquet'']"
  show ?thesis
  proof (cases "named_temporary_file i (parent src) fs")
    case (Pair r fs1)
    show ?thesis
    proof (cases r)
      case (Inl e1)
      with Pair assms named_temporary_file_Inl show ?thesis
        by (auto simp: temp_write_replace_def)
    next
      case (Inr tp)
      from named_temporary_file_Inr [OF Pair [unfolded Inr]]
      have tp: "tp = ?tp" "fs tp = None" and fs1: "fs1 = fs(tp \<mapsto> Blob [])" by blast+
      show ?thesis
      proof (cases "pq_write_table i t tp fs1")
        case w: (Pair rw fs2)
        show ?thesis
        proof (cases rw)
          case wl: (Inl e2)
          from assms Pair Inr w wl have res: "fs' = unlink_quiet i tp fs2"
            by (simp add: temp_write_replace_def)
          from pq_write_table_Inl [OF w [unfolded wl]] fs1
          consider (kept) b where "fs2 = fs(tp \<mapsto> Blob b)" | (gone) "fs2 = fs(tp := None)"
            by auto
          then show ?thesis
          proof cases
            case kept
            with res tp show ?thesis
              by (cases "unlink_fails i") (auto simp: unlink_quiet_def fun_eq_iff)
          next
            case gone
            with tp have "fs2 = fs" by (auto simp: fun_eq_iff)
            with res tp show ?thesis
              by (auto simp: unlink_quiet_def fun_eq_iff)
          qed
        next
          case wr: (Inr x)
          from pq_write_table_Inr [OF w [unfolded wr]] fs1
          have fs2: "fs2 = fs(tp \<mapsto> written_file i t)" by simp
          from assms Pair Inr w wr obtain fs3 where
            r: "os_replace i tp src fs2 = (Inl e, fs3)" and res: "fs' = unlink_quiet i tp fs3"
            by (auto simp: temp_write_replace_def split: prod.splits sum.splits)
          from os_replace_Inl [OF r] have "fs3 = fs2" .
          with res fs2 tp show ?thesis
            by (cases "unlink_fails i") (auto simp: unlink_quiet_def fun_eq_iff)
        qed
      qed
    qed
  qed
qed

section \<open>Rewriting a file in place\<close>

lemma dumps_sample_doc: "dumps_utf8 sample_repr (JObj sample_doc) = Inr blob_list" by code_simp
lemma dumps_sample_doc_done: "dumps_utf8 sample_repr (JObj sample_doc_done) = Inr blob_sequence" by code_simp

lemma parent_tmp: "parent (parent src @ [n]) = parent src"
  by (simp add: parent_def)

lemma write_with_hf_metadata_in_place:
  assumes "dest = None \<or> dest = Some src"
  shows "write_with_hf_metadata fr i src dest hf_json fs =
           (case pq_read_table i fs src of
              Inl e \<Rightarrow> (Inl e, fs)
            | Inr t \<Rightarrow>
                (case dumps_utf8 fr hf_json of
                   Inl e \<Rightarrow> (Inl e, fs)
                 | Inr blob \<Rightarrow>
                     temp_write_replace i (t\<lparr>tmeta := dict_set (tmeta t) ''huggingface'' blob\<rparr>) src fs))"
  using assms by (auto simp: write_with_hf_metadata_def Let_def split: sum.splits)

lemma pq_read_table_Inr: "pq_read_table i fs p = Inr t \<Longrightarrow>
   \<exists>f. fs p = Some (Parquet f) \<and> t = \<lparr>tmeta = schema_meta f, tdata = payload f\<rparr>"
  by (auto simp: pq_read_table_def pq_open_def split: if_splits option.splits fobj.splits sum.splits)


lemma tmp_fresh: "fs_with f (parent sample_path @ [tmp_name io_ok @ ''.parquet'']) = None"
  by (simp add: fs_with_def sample_path_def parent_def io_ok_def)

lemma sample_write_ok:
  "write_with_hf_metadata sample_repr io_ok sample_path None (JObj sample_doc_done) (fs_with list_file)
   = (Inr (), (fs_with list_file)(sample_path \<mapsto>
        written_file io_ok \<lparr>tmeta = [(''huggingface'', blob_sequence)], tdata = ''rows''\<rparr>))"
proof -
  have r: "pq_read_table io_ok (fs_with list_file) sample_path
             = Inr \<lparr>tmeta = [(''huggingface'', blob_list)], tdata = ''rows''\<rparr>"
    by (simp add: pq_read_table_def pq_open_def fs_with_def list_file_def io_ok_def)
  have t: "temp_write_replace io_ok \<lparr>tmeta = [(''huggingface'', blob_sequence)], tdata = ''rows''\<rparr>
             sample_path (fs_with list_file)
           = (Inr (), (fs_with list_file)(sample_path \<mapsto>
        written_file io_ok \<lparr>tmeta = [(''huggingface'', blob_sequence)], tdata = ''rows''\<rparr>))"
    by (simp add: temp_write_replace_def named_temporary_file_def pq_write_table_def os_replace_def
          fs_with_def sample_path_def parent_def io_ok_def Let_def fun_eq_iff)
  show ?thesis
    by (simp add: write_with_hf_metadata_in_place r dumps_sample_doc_done t)
qed

lemma sample_write_fail:
  "write_with_hf_metadata sample_repr io_partial sample_path None (JObj sample_doc_done) (fs_with list_file)
   = (Inl OSError, fs_with list_file)"
proof -
  have r: "pq_read_table io_partial (fs_with list_file) sample_path
             = Inr \<lparr>tmeta = [(''huggingface'', blob_list)], tdata = ''rows''\<rparr>"
    by (simp add: pq_read_table_def pq_open_def fs_with_def list_file_def io_ok_def io_partial_def)
  have t: "temp_write_replace io_partial \<lparr>tmeta = [(''huggingface'', blob_sequence)], tdata = ''rows''\<rparr>
             sample_path (fs_with list_file)
           = (Inl OSError, fs_with list_file)"
    by (simp add: temp_write_replace_def named_temporary_file_def pq_write_table_def os_replace_def
          unlink_quiet_def fs_with_def sample_path_def parent_def io_ok_def io_partial_def Let_def fun_eq_iff)
  show ?thesis
    by (simp add: write_with_hf_metadata_in_place r dumps_sample_doc_done t)
qed

lemma sample_normalize_fail:
  "normalize_file sample_loads sample_repr io_partial sample_path False (fs_with drift_file)
     = (Inl OSError, (fs_with drift_file)(sample_path \<mapsto> Blob ''PAR1''))"
proof -
  have o: "pq_open io_partial (fs_with drift_file) sample_path = Inr drift_file"
    by (simp add: pq_open_def fs_with_def io_ok_def io_partial_def)
  have fm: "map_of (file_meta drift_file) ''huggingface'' = Some blob_sequence"
    and sm: "map_of (schema_meta drift_file) ''huggingface'' = Some blob_list"
    by (simp_all add: drift_file_def)
  have l: "sample_loads blob_sequence = Some (JObj sample_doc_done)"
    by (simp add: sample_loads_def blob_sequence_def blob_list_def)
  have ne: "blob_list \<noteq> blob_sequence" "blob_sequence \<noteq> []"
    by (simp_all add: blob_sequence_def blob_list_def)
  have rt: "pq_read_table io_partial (fs_with drift_file) sample_path
              = Inr \<lparr>tmeta = schema_meta drift_file, tdata = payload drift_file\<rparr>"
    by (simp add: pq_read_table_def o)
  have wt: "pq_write_table io_partial t sample_path (fs_with drift_file)
              = (Inl OSError, (fs_with drift_file)(sample_path \<mapsto> Blob ''PAR1''))" for t
    by (simp add: pq_write_table_def fs_with_def io_partial_def io_ok_def)
  show ?thesis
    by (simp add: normalize_file_def o fm sm l ne rt wt dumps_sample_doc_done bytes_truthy_def Let_def)
qed

lemma sample_normalize_removed:
  "normalize_file sample_loads sample_repr io_removed sample_path False (fs_with drift_file)
     = (Inl OSError, (fs_with drift_file)(sample_path := None))"
proof -
  have o: "pq_open io_removed (fs_with drift_file) sample_path = Inr drift_file"
    by (simp add: pq_open_def fs_with_def io_ok_def io_removed_def)
  have fm: "map_of (file_meta drift_file) ''huggingface'' = Some blob_sequence"
    and sm: "map_of (schema_meta drift_file) ''huggingface'' = Some blob_list"
    by (simp_all add: drift_file_def)
  have l: "sample_loads blob_sequence = Some (JObj sample_doc_done)"
    by (simp add: sample_loads_def blob_sequence_def blob_list_def)
  have ne: "blob_list \<noteq> blob_sequence" "blob_sequence \<noteq> []"
    by (simp_all add: blob_sequence_def blob_list_def)
  have rt: "pq_read_table io_removed (fs_with drift_file) sample_path
              = Inr \<lparr>tmeta = schema_meta drift_file, tdata = payload drift_file\<rparr>"
    by (simp add: pq_read_table_def o)
  have wt: "pq_write_table io_removed t sample_path (fs_with drift_file)
              = (Inl OSError, (fs_with drift_file)(sample_path := None))" for t
    by (simp add: pq_write_table_def fs_with_def io_removed_def io_ok_def)
  show ?thesis
    by (simp add: normalize_file_def o fm sm l ne rt wt dumps_sample_doc_done bytes_truthy_def Let_def)
qed

text \<open>
  \<open>normalize_file\<close> does not go through a temporary file: with the footer saying
  \<open>Sequence\<close> and the schema saying \<open>List\<close> it writes the new table onto the path of
  the file itself. A write that breaks off there takes the file with it: \<open>pq.write_table\<close>
  removes what it was writing, and the path is empty; when that removal fails too, the
  broken part stays where the file was.
\<close>

theorem normalize_file_overwrites_in_place:
  "fs_with drift_file sample_path = Some (Parquet drift_file) \<and>
   normalize_file sample_loads sample_repr io_partial sample_path False (fs_with drift_file)
     = (Inl OSError, (fs_with drift_file)(sample_path \<mapsto> Blob ''PAR1'')) \<and>
   ((fs_with drift_file)(sample_path \<mapsto> Blob ''PAR1'')) sample_path
     \<noteq> fs_with drift_file sample_path \<and>
   normalize_file sample_loads sample_repr io_removed sample_path False (fs_with drift_file)
     = (Inl OSError, (fs_with drift_file)(sample_path := None)) \<and>
   ((fs_with drift_file)(sample_path := None)) sample_path \<noteq> fs_with drift_file sample_path"
  using sample_normalize_fail sample_normalize_removed by (simp add: fs_with_def)

text \<open>
  Claim C2, as the code has it. The in-place rewrites of \<open>write_with_hf_metadata\<close> (no
  destination, or the source as destination) and of \<open>rewrite_parquet_with_metadata\<close>
  write the new table to a temporary file that did not exist before, in the directory of
  the source, and rename it over the source. When the call succeeds the file system
  differs from the one before at the source only, which holds the new table. When the
  call raises, the source is what it was, nothing but the temporary path can differ, and
  not even that unless removing the temporary file failed too; the error raised is the
  one of the failed step, never one of the removal.
\<close>

theorem in_place_rewrite_is_atomic:
  fixes src :: path and i :: io
  defines "tp \<equiv> parent src @ [tmp_name i @ ''.parquet'']"
  assumes dest: "dest = None \<or> dest = Some src"
  shows "parent tp = parent src \<and>
    (write_with_hf_metadata fr i src dest hf_json fs = (Inr (), fs') \<longrightarrow>
       fs tp = None \<and> (\<exists>t. fs' = fs(src \<mapsto> written_file i t))) \<and>
    (write_with_hf_metadata fr i src dest hf_json fs = (Inl e, fs') \<longrightarrow>
       fs' src = fs src \<and> (\<forall>p. p \<noteq> tp \<longrightarrow> fs' p = fs p) \<and> (\<not> unlink_fails i \<longrightarrow> fs' = fs)) \<and>
    (rewrite_parquet_with_metadata i src new_metadata fs = (Inr (), fs') \<longrightarrow>
       fs tp = None \<and> (\<exists>t. fs' = fs(src \<mapsto> written_file i t))) \<and>
    (rewrite_parquet_with_metadata i src new_metadata fs = (Inl e, fs') \<longrightarrow>
       fs' src = fs src \<and> (\<forall>p. p \<noteq> tp \<longrightarrow> fs' p = fs p) \<and> (\<not> unlink_fails i \<longrightarrow> fs' = fs))"
proof -
  have ok: "fs tp = None \<and> (\<exists>t. fs' = fs(src \<mapsto> written_file i t))"
    if "temp_write_replace i t src fs = (Inr (), fs')" "pq_read_table i fs src = Inr t0" for t t0
  proof -
    from pq_read_table_Inr [OF that(2)] have ex: "fs src \<noteq> None" by auto
    from that(1) obtain fs1 where "named_temporary_file i (parent src) fs = (Inr tp, fs1)"
      by (auto simp: temp_write_replace_def tp_def split: prod.splits sum.splits
            dest: named_temporary_file_Inr)
    from named_temporary_file_Inr [OF this] have "fs tp = None" by blast
    with temp_write_replace_ok [OF that(1) ex] show ?thesis by blast
  qed
  have err: "fs' src = fs src \<and> (\<forall>p. p \<noteq> tp \<longrightarrow> fs' p = fs p) \<and> (\<not> unlink_fails i \<longrightarrow> fs' = fs)"
    if "temp_write_replace i t src fs = (Inl e, fs')" "pq_read_table i fs src = Inr t0" for t t0
  proof -
    from pq_read_table_Inr [OF that(2)] have ex: "fs src \<noteq> None" by auto
    from temp_write_replace_err [OF that(1)] ex show ?thesis
      unfolding tp_def by (auto simp: fun_eq_iff)
  qed
  have w: "write_with_hf_metadata fr i src dest hf_json fs =
           (case pq_read_table i fs src of
              Inl e \<Rightarrow> (Inl e, fs)
            | Inr t \<Rightarrow>
                (case dumps_utf8 fr hf_json of
                   Inl e \<Rightarrow> (Inl e, fs)
                 | Inr blob \<Rightarrow>
                     temp_write_replace i (t\<lparr>tmeta := dict_set (tmeta t) ''huggingface'' blob\<rparr>) src fs))"
    by (rule write_with_hf_metadata_in_place [OF dest])
  have a: "parent tp = parent src" unfolding tp_def by (rule parent_tmp)
  have b: "write_with_hf_metadata fr i src dest hf_json fs = (Inr (), fs') \<longrightarrow>
       fs tp = None \<and> (\<exists>t. fs' = fs(src \<mapsto> written_file i t))"
    unfolding w using ok by (auto split: sum.splits)
  have c: "write_with_hf_metadata fr i src dest hf_json fs = (Inl e, fs') \<longrightarrow>
       fs' src = fs src \<and> (\<forall>p. p \<noteq> tp \<longrightarrow> fs' p = fs p) \<and> (\<not> unlink_fails i \<longrightarrow> fs' = fs)"
    unfolding w using err by (auto split: sum.splits)
  have d: "rewrite_parquet_with_metadata i src new_metadata fs = (Inr (), fs') \<longrightarrow>
       fs tp = None \<and> (\<exists>t. fs' = fs(src \<mapsto> written_file i t))"
    unfolding rewrite_parquet_with_metadata_def using ok by (auto simp: Let_def split: sum.splits)
  have e: "rewrite_parquet_with_metadata i src new_metadata fs = (Inl e, fs') \<longrightarrow>
       fs' src = fs src \<and> (\<forall>p. p \<noteq> tp \<longrightarrow> fs' p = fs p) \<and> (\<not> unlink_fails i \<longrightarrow> fs' = fs)"
    unfolding rewrite_parquet_with_metadata_def using err by (auto simp: Let_def split: sum.splits)
  from a b c d e show ?thesis by blast
qed

theorem in_place_rewrite_is_atomic_witness:
  "write_with_hf_metadata sample_repr io_ok sample_path None (JObj sample_doc_done) (fs_with list_file)
     = (Inr (), (fs_with list_file)(sample_path \<mapsto>
          written_file io_ok \<lparr>tmeta = [(''huggingface'', blob_sequence)], tdata = ''rows''\<rparr>)) \<and>
   fs_with list_file (parent sample_path @ [tmp_name io_ok @ ''.parquet'']) = None \<and>
   write_with_hf_metadata sample_repr io_partial sample_path None (JObj sample_doc_done) (fs_with list_file)
     = (Inl OSError, fs_with list_file) \<and>
   \<not> unlink_fails io_partial"
proof -
  have d: "(None :: path option) = None \<or> None = Some sample_path" by simp
  have u: "\<not> unlink_fails io_partial" by (simp add: io_partial_def io_ok_def)
  show ?thesis
    using sample_write_ok sample_write_fail u
      in_place_rewrite_is_atomic [OF d, where fr = sample_repr and i = io_ok
        and hf_json = "JObj sample_doc_done" and fs = "fs_with list_file"
        and fs' = "(fs_with list_file)(sample_path \<mapsto>
          written_file io_ok \<lparr>tmeta = [(''huggingface'', blob_sequence)], tdata = ''rows''\<rparr>)"]
      in_place_rewrite_is_atomic [OF d, where fr = sample_repr and i = io_partial
        and hf_json = "JObj sample_doc_done" and fs = "fs_with list_file"
        and fs' = "fs_with list_file" and e = OSError]
    by simp
qed

section \<open>What a rewrite does to the other metadata keys\<close>

lemma map_of_dict_order: "map_of (dict_order i kvs) = map_of kvs"
  unfolding dict_order_def by (rule map_of_sort_rank)

lemma written_file_fresh:
  "map_of (tmeta t) ''ARROW:schema'' = None \<Longrightarrow>
   written_file i t =
     Parquet \<lparr>file_meta = dict_order i (tmeta t @ [(''ARROW:schema'', pack_schema i (tmeta t))]),
              schema_meta = tmeta t, payload = tdata t\<rparr>"
  by (simp add: written_file_def)

lemma written_file_older:
  "map_of (tmeta t) ''ARROW:schema'' = Some x \<Longrightarrow> unpack_schema i x = Some m \<Longrightarrow>
   written_file i t =
     Parquet \<lparr>file_meta = dict_order i (tmeta t), schema_meta = m, payload = tdata t\<rparr>"
  by (simp add: written_file_def)

text \<open>Whatever the table's metadata holds, the footer of the written file says the same.\<close>

lemma written_file_footer:
  assumes "map_of (tmeta t) k = Some v" and "fs p = Some (written_file i t)"
      and "\<not> read_fails i'"
  shows "\<exists>m. pq_read_metadata i' fs p = Inr m \<and> map_of m k = Some v"
proof (cases "map_of (tmeta t) ''ARROW:schema''")
  case None
  with assms show ?thesis
    by (simp add: written_file_fresh pq_read_metadata_def map_of_dict_order map_add_Some_iff)
next
  case (Some x)
  with assms show ?thesis
    by (cases "unpack_schema i x")
       (simp_all add: written_file_def pq_read_metadata_def map_of_dict_order)
qed

lemma write_with_hf_metadata_Inr:
  assumes "write_with_hf_metadata fr i src dest hf_json fs = (Inr x, fs')"
  shows "\<exists>f blob. fs src = Some (Parquet f) \<and> dumps_utf8 fr hf_json = Inr blob \<and>
           fs' (case dest of None \<Rightarrow> src | Some d \<Rightarrow> d) =
             Some (written_file i
                \<lparr>tmeta = dict_set (schema_meta f) ''huggingface'' blob, tdata = payload f\<rparr>)"
proof -
  from assms obtain t blob where t: "pq_read_table i fs src = Inr t"
    and b: "dumps_utf8 fr hf_json = Inr blob"
    by (auto simp: write_with_hf_metadata_def split: sum.splits)
  from pq_read_table_Inr [OF t] obtain f where f: "fs src = Some (Parquet f)"
    and tt: "t = \<lparr>tmeta = schema_meta f, tdata = payload f\<rparr>" by blast
  let ?nt = "\<lparr>tmeta = dict_set (schema_meta f) ''huggingface'' blob, tdata = payload f\<rparr>"
  show ?thesis
  proof (cases "dest = None \<or> dest = Some src")
    case True
    with assms t b tt have "temp_write_replace i ?nt src fs = (Inr x, fs')"
      by (simp add: write_with_hf_metadata_in_place)
    from temp_write_replace_ok [OF this] f have "fs' src = Some (written_file i ?nt)"
      by simp
    with True f b show ?thesis by auto
  next
    case False
    then obtain d where d: "dest = Some d" "d \<noteq> src" by auto
    with assms t b tt obtain fs1 where "pq_write_table i ?nt d fs1 = (Inr x, fs')"
      by (auto simp: write_with_hf_metadata_def Let_def split: prod.splits sum.splits)
    from pq_write_table_Inr [OF this] have "fs' d = Some (written_file i ?nt)" by simp
    with d f b show ?thesis by auto
  qed
qed

text \<open>
  The writer of \<open>fix_parquet_hf_metadata.py\<close> sets the one key. The footer of what it
  writes has the blob under \<open>huggingface\<close>. When the schema metadata of the source has no
  \<open>ARROW:schema\<close> entry of its own, the file written reads back with the blob under
  \<open>huggingface\<close> at the schema level too and with every other key of the schema metadata
  as it was.
\<close>

lemma write_with_hf_metadata_footer:
  assumes "write_with_hf_metadata fr i src dest hf_json fs = (Inr x, fs')"
      and "dumps_utf8 fr hf_json = Inr blob" and "\<not> read_fails i'"
  shows "\<exists>m. pq_read_metadata i' fs' (case dest of None \<Rightarrow> src | Some d \<Rightarrow> d) = Inr m \<and>
             map_of m ''huggingface'' = Some blob"
proof -
  from write_with_hf_metadata_Inr [OF assms(1)] obtain f :: pqfile and blob0 where
    b0: "dumps_utf8 fr hf_json = Inr blob0" and
    w0: "fs' (case dest of None \<Rightarrow> src | Some d \<Rightarrow> d) =
             Some (written_file i
                \<lparr>tmeta = dict_set (schema_meta f) ''huggingface'' blob0, tdata = payload f\<rparr>)"
    by blast
  from b0 assms(2) have "blob0 = blob" by simp
  with w0 have
    w: "fs' (case dest of None \<Rightarrow> src | Some d \<Rightarrow> d) =
             Some (written_file i
                \<lparr>tmeta = dict_set (schema_meta f) ''huggingface'' blob, tdata = payload f\<rparr>)"
    by simp
  have h: "map_of (tmeta \<lparr>tmeta = dict_set (schema_meta f) ''huggingface'' blob, tdata = payload f\<rparr>)
             ''huggingface'' = Some blob"
    by (simp add: map_of_dict_set)
  show ?thesis
    by (rule written_file_footer
          [where fs = fs' and i = i and k = "''huggingface''", OF h w assms(3)])
qed

lemma write_with_hf_metadata_keeps_other_keys:
  assumes "write_with_hf_metadata fr i src dest hf_json fs = (Inr x, fs')"
      and "fs src = Some (Parquet f)"
      and "map_of (schema_meta f) ''ARROW:schema'' = None"
  shows "\<exists>f' blob. dumps_utf8 fr hf_json = Inr blob \<and>
           fs' (case dest of None \<Rightarrow> src | Some d \<Rightarrow> d) = Some (Parquet f') \<and>
           map_of (schema_meta f') ''huggingface'' = Some blob \<and>
           map_of (file_meta f') ''huggingface'' = Some blob \<and>
           payload f' = payload f \<and>
           (\<forall>k. k \<noteq> ''huggingface'' \<longrightarrow> map_of (schema_meta f') k = map_of (schema_meta f) k)"
proof -
  from write_with_hf_metadata_Inr [OF assms(1)] obtain f0 blob where
    f0: "fs src = Some (Parquet f0)" and
    b: "dumps_utf8 fr hf_json = Inr blob" and
    w0: "fs' (case dest of None \<Rightarrow> src | Some d \<Rightarrow> d) =
             Some (written_file i
                \<lparr>tmeta = dict_set (schema_meta f0) ''huggingface'' blob, tdata = payload f0\<rparr>)"
    by blast
  from f0 assms(2) have "f0 = f" by simp
  with w0 have
    w: "fs' (case dest of None \<Rightarrow> src | Some d \<Rightarrow> d) =
             Some (written_file i
                \<lparr>tmeta = dict_set (schema_meta f) ''huggingface'' blob, tdata = payload f\<rparr>)"
    by simp
  have n: "map_of (tmeta \<lparr>tmeta = dict_set (schema_meta f) ''huggingface'' blob, tdata = payload f\<rparr>)
             ''ARROW:schema'' = None"
    using assms(3) by (simp add: map_of_dict_set)
  show ?thesis
    using b w
    by (simp add: written_file_fresh [OF n] map_of_dict_set map_of_dict_order map_add_Some_iff)
qed

text \<open>\<open>d.update(other)\<close> for dictionaries, in which every key occurs once.\<close>

lemma dict_set_keys_set: "fst ` set (dict_set kvs k v) = insert k (fst ` set kvs)"
proof (induction kvs)
  case Nil
  then show ?case by simp
next
  case (Cons e kvs)
  obtain k' v' where e: "e = (k', v')" by (cases e)
  show ?case
  proof (cases "k' = k")
    case True
    then show ?thesis by (simp add: e)
  next
    case False
    with Cons.IH show ?thesis by (simp add: e insert_commute)
  qed
qed

lemma dict_set_distinct: "distinct (map fst kvs) \<Longrightarrow> distinct (map fst (dict_set kvs k v))"
proof (induction kvs)
  case Nil
  then show ?case by simp
next
  case (Cons e kvs)
  obtain k' v' where e: "e = (k', v')" by (cases e)
  show ?case
  proof (cases "k' = k")
    case True
    with Cons.prems show ?thesis by (simp add: e)
  next
    case False
    with Cons show ?thesis by (simp add: e dict_set_keys_set)
  qed
qed

lemma dict_update_other_key:
  "k \<notin> fst ` set other \<Longrightarrow> map_of (dict_update d other) k = map_of d k"
  unfolding dict_update_def
  by (induction other arbitrary: d) (simp_all add: map_of_dict_set)

lemma dict_update_key:
  "distinct (map fst other) \<Longrightarrow> map_of other k = Some v \<Longrightarrow>
   map_of (dict_update d other) k = Some v"
proof (induction other arbitrary: d)
  case Nil
  then show ?case by simp
next
  case (Cons e es)
  obtain k' v' where e: "e = (k', v')" by (cases e)
  have step: "dict_update d (e # es) = dict_update (dict_set d k' v') es"
    by (simp add: dict_update_def e)
  show ?case
  proof (cases "k' = k")
    case True
    with Cons.prems e have "v' = v" "k \<notin> fst ` set es" by auto
    then show ?thesis
      unfolding step using True by (simp add: dict_update_other_key map_of_dict_set)
  next
    case False
    with Cons.prems e have "distinct (map fst es)" "map_of es k = Some v" by auto
    from Cons.IH [OF this] show ?thesis unfolding step .
  qed
qed

lemma mkdir_chain_keeps:
  "mkdir_chain b ps fs = (r, fs') \<Longrightarrow> fs q = Some ob \<Longrightarrow> fs' q = Some ob"
proof (induction ps arbitrary: b fs)
  case Nil
  then show ?case by simp
next
  case (Cons p ps)
  show ?case
  proof (cases "fs p")
    case None
    with Cons.prems(2) have ne: "q \<noteq> p" by auto
    from None Cons.prems(1) show ?thesis
    proof (cases b)
      case bn: None
      with None Cons.prems(1) have "mkdir_chain None ps (fs(p \<mapsto> Dir)) = (r, fs')" by simp
      from Cons.IH [OF this] Cons.prems(2) ne show ?thesis by simp
    next
      case (Some n)
      show ?thesis
      proof (cases n)
        case 0
        with None Some Cons.prems show ?thesis by simp
      next
        case (Suc k)
        with None Some Cons.prems(1) have "mkdir_chain (Some k) ps (fs(p \<mapsto> Dir)) = (r, fs')"
          by simp
        from Cons.IH [OF this] Cons.prems(2) ne show ?thesis by simp
      qed
    qed
  next
    case (Some x)
    with Cons.prems Cons.IH show ?thesis by (cases x) auto
  qed
qed

lemma cv_sample: "convert_list_to_sequence_cv (JObj sample_doc) = Inr (JObj sample_doc_done, 1)"
  by code_simp

text \<open>
  The apply branch of \<open>convert_parquet_hf_list_to_sequence.py\<close> merges the whole footer
  into the schema metadata of the table, the footer's \<open>ARROW:schema\<close> entry included. For
  a file that reads as \<open>pyarrow\<close> wrote it, with such an entry in its footer and none in
  its schema metadata, the file written has the new blob in its footer, and its schema
  metadata is, key for key, that of the source: the blob under \<open>huggingface\<close> at the
  schema level is the old one.
\<close>

lemma cv_write_leaves_schema_level:
  assumes src: "fs p = Some (Parquet f)"
      and keys: "distinct (map fst (file_meta f))"
      and entry: "map_of (file_meta f) ''ARROW:schema'' = Some x"
      and wr: "reads_as_written i f"
      and own: "map_of (schema_meta f) ''ARROW:schema'' = None"
      and ser: "dumps_utf8 fr j = Inr blob"
      and run: "cv_write fr a i p rel (file_meta f) j fs = (Inr (), fs')"
  shows "\<exists>f'. fs' (case arg_out a of None \<Rightarrow> p | Some ot \<Rightarrow> ot @ rel) = Some (Parquet f') \<and>
           map_of (file_meta f') ''huggingface'' = Some blob \<and>
           schema_meta f' = schema_meta f \<and> payload f' = payload f"
proof -
  let ?new = "dict_set (file_meta f) ''huggingface'' blob"
  let ?nt = "\<lparr>tmeta = dict_update (schema_meta f) ?new, tdata = payload f\<rparr>"
  have d: "distinct (map fst ?new)" by (rule dict_set_distinct [OF keys])
  have e: "map_of (tmeta ?nt) ''ARROW:schema'' = Some x"
    using entry by (simp add: dict_update_key [OF d] map_of_dict_set)
  have h: "map_of (tmeta ?nt) ''huggingface'' = Some blob"
    by (simp add: dict_update_key [OF d] map_of_dict_set)
  from wr entry have u: "unpack_schema i x = Some (schema_meta f)"
    by (simp add: reads_as_written_def)
  have w: "written_file i ?nt =
             Parquet \<lparr>file_meta = dict_order i (tmeta ?nt), schema_meta = schema_meta f,
                      payload = payload f\<rparr>"
    using written_file_older [OF e u] by simp
  have t: "pq_read_table i' fs1 p = Inr t \<Longrightarrow> fs1 p = fs p \<Longrightarrow>
             t = \<lparr>tmeta = schema_meta f, tdata = payload f\<rparr>" for i' fs1 t
    using src by (auto dest: pq_read_table_Inr)
  have "fs' (case arg_out a of None \<Rightarrow> p | Some ot \<Rightarrow> ot @ rel) = Some (written_file i ?nt)"
  proof (cases "arg_out a")
    case None
    with run ser obtain t where r: "pq_read_table i fs p = Inr t"
      and tw: "temp_write_replace i (t\<lparr>tmeta := dict_update (tmeta t) ?new\<rparr>) p fs = (Inr (), fs')"
      by (auto simp: cv_write_def rewrite_parquet_with_metadata_def Let_def split: sum.splits)
    from t [OF r] have "t\<lparr>tmeta := dict_update (tmeta t) ?new\<rparr> = ?nt" by simp
    with tw have "temp_write_replace i ?nt p fs = (Inr (), fs')" by simp
    from temp_write_replace_ok [OF this] src None show ?thesis by simp
  next
    case (Some ot)
    with run ser obtain fs1 t where m: "mkdir_parents i (parent (ot @ rel)) fs = (Inr (), fs1)"
      and r: "pq_read_table i fs1 p = Inr t"
      and pw: "pq_write_table i (t\<lparr>tmeta := dict_update (tmeta t) ?new\<rparr>) (ot @ rel) fs1 = (Inr (), fs')"
      by (auto simp: cv_write_def Let_def split: sum.splits prod.splits)
    have same: "fs1 p = fs p"
      using mkdir_chain_keeps [OF m [unfolded mkdir_parents_def] src] src by simp
    from t [OF r same] have "t\<lparr>tmeta := dict_update (tmeta t) ?new\<rparr> = ?nt" by simp
    with pw have "pq_write_table i ?nt (ot @ rel) fs1 = (Inr (), fs')" by simp
    from pq_write_table_Inr [OF this] Some show ?thesis by simp
  qed
  with w h show ?thesis by (simp add: map_of_dict_order)
qed

section \<open>The bytes compared and the bytes written\<close>

lemma escape_char_plain: "0x20 \<le> c \<Longrightarrow> c \<noteq> 0x22 \<Longrightarrow> c \<noteq> 0x5C \<Longrightarrow> escape_char c = [c]"
  by (simp add: escape_char_def)

lemma basestring_plain:
  "\<forall>c\<in>set s. 0x20 \<le> c \<and> c \<noteq> 0x22 \<and> c \<noteq> 0x5C \<Longrightarrow> py_encode_basestring s = [0x22] @ s @ [0x22]"
proof -
  assume a: "\<forall>c\<in>set s. 0x20 \<le> c \<and> c \<noteq> 0x22 \<and> c \<noteq> 0x5C"
  then have "concat (map escape_char s) = s"
    by (induction s) (simp_all add: escape_char_plain)
  then show ?thesis by (simp add: py_encode_basestring_def)
qed


text \<open>
  The serialisation is not free of whitespace between tokens: \<open>{"a": 1}\<close> is written
  with a space after the colon.
\<close>

theorem serialisation_has_separator_spaces:
  "dumps_utf8 sample_repr (JObj [(u ''a'', JInt 1)]) = Inr ''{\"a\": 1}'' \<and>
   \<not> no_outer_space False False ''{\"a\": 1}''"
  by code_simp

lemma sample_written_done:
  "written_file io_ok \<lparr>tmeta = [(''huggingface'', blob_sequence)], tdata = ''rows''\<rparr> = Parquet done_file"
proof -
  have ne: "blob_sequence \<noteq> blob_list" by (simp add: blob_sequence_def blob_list_def)
  have p: "sample_pack [(''huggingface'', blob_sequence)] = packed_sequence"
    by (simp add: sample_pack_def ne)
  show ?thesis
    by (simp add: written_file_def io_ok_def dict_order_def p done_file_def)
qed

text \<open>
  Claim C8, as the code has it. The bytes \<open>main\<close> compares with the stored blobs and the
  bytes the writer stores under \<open>huggingface\<close> are the same function of the value,
  \<open>json.dumps(value, ensure_ascii=False).encode("utf-8")\<close>: after a successful write of a
  value the footer of the file written holds exactly the bytes of the comparison, and so
  does its schema metadata when the schema metadata of the source has no \<open>ARROW:schema\<close>
  entry of its own. A string of plain characters (no quote, backslash or control
  character) is written as it is between two quotes, whatever code points it holds, so
  nothing is escaped to ASCII. When the printer of floats emits no control character,
  the bytes hold none either: no newline, no tab, no indentation. The separators are
  those of Python's default, \<open>", "\<close> between items and \<open>": "\<close> after a key, so a space
  follows each comma and each colon.
\<close>

theorem serialisation_is_shared_and_unescaped:
  "(dumps_utf8 fr x = Inr t \<and> write_with_hf_metadata fr i src dest x fs = (Inr (), fs') \<longrightarrow>
      (\<not> read_fails i' \<longrightarrow>
         (\<exists>m. pq_read_metadata i' fs' (case dest of None \<Rightarrow> src | Some d \<Rightarrow> d) = Inr m \<and>
              map_of m ''huggingface'' = Some t)) \<and>
      (fs src = Some (Parquet f) \<and> map_of (schema_meta f) ''ARROW:schema'' = None \<longrightarrow>
         (\<exists>f'. fs' (case dest of None \<Rightarrow> src | Some d \<Rightarrow> d) = Some (Parquet f') \<and>
               map_of (schema_meta f') ''huggingface'' = Some t \<and>
               map_of (file_meta f') ''huggingface'' = Some t))) \<and>
   ((\<forall>c\<in>set s. 0x20 \<le> c \<and> c \<noteq> 0x22 \<and> c \<noteq> 0x5C) \<longrightarrow>
      dumps fr (JStr s) = [0x22] @ s @ [0x22]) \<and>
   ((\<forall>w. \<forall>c\<in>set (fr w). 0x20 \<le> c) \<and> dumps_utf8 fr x = Inr t \<longrightarrow>
      (\<forall>b\<in>set t. (0x20::nat) \<le> of_char b)) \<and>
   dumps fr (JArr (y # z # ys)) =
     u ''['' @ dumps fr y @ u '', '' @ join (u '', '') (map (dumps fr) (z # ys)) @ u '']'' \<and>
   dumps fr (JObj ((k, v) # e # es)) =
     u ''{'' @ py_encode_basestring k @ u '': '' @ dumps fr v @ u '', '' @
     join (u '', '') (map (\<lambda>e. py_encode_basestring (fst e) @ u '': '' @ dumps fr (snd e)) (e # es)) @
     u ''}''"
proof -
  have a: "dumps_utf8 fr x = Inr t \<and> write_with_hf_metadata fr i src dest x fs = (Inr (), fs') \<longrightarrow>
      (\<not> read_fails i' \<longrightarrow>
         (\<exists>m. pq_read_metadata i' fs' (case dest of None \<Rightarrow> src | Some d \<Rightarrow> d) = Inr m \<and>
              map_of m ''huggingface'' = Some t)) \<and>
      (fs src = Some (Parquet f) \<and> map_of (schema_meta f) ''ARROW:schema'' = None \<longrightarrow>
         (\<exists>f'. fs' (case dest of None \<Rightarrow> src | Some d \<Rightarrow> d) = Some (Parquet f') \<and>
               map_of (schema_meta f') ''huggingface'' = Some t \<and>
               map_of (file_meta f') ''huggingface'' = Some t))"
  proof (intro impI, elim conjE)
    assume d: "dumps_utf8 fr x = Inr t"
      and w: "write_with_hf_metadata fr i src dest x fs = (Inr (), fs')"
    have a1: "\<not> read_fails i' \<longrightarrow>
         (\<exists>m. pq_read_metadata i' fs' (case dest of None \<Rightarrow> src | Some d \<Rightarrow> d) = Inr m \<and>
              map_of m ''huggingface'' = Some t)"
      using write_with_hf_metadata_footer [OF w d] by blast
    have a2: "fs src = Some (Parquet f) \<and> map_of (schema_meta f) ''ARROW:schema'' = None \<longrightarrow>
         (\<exists>f'. fs' (case dest of None \<Rightarrow> src | Some d \<Rightarrow> d) = Some (Parquet f') \<and>
               map_of (schema_meta f') ''huggingface'' = Some t \<and>
               map_of (file_meta f') ''huggingface'' = Some t)"
    proof (intro impI, elim conjE)
      assume f: "fs src = Some (Parquet f)" and n: "map_of (schema_meta f) ''ARROW:schema'' = None"
      from write_with_hf_metadata_keeps_other_keys [OF w f n] d
      show "\<exists>f'. fs' (case dest of None \<Rightarrow> src | Some d \<Rightarrow> d) = Some (Parquet f') \<and>
               map_of (schema_meta f') ''huggingface'' = Some t \<and>
               map_of (file_meta f') ''huggingface'' = Some t"
        by auto
    qed
    from a1 a2 show "(\<not> read_fails i' \<longrightarrow>
         (\<exists>m. pq_read_metadata i' fs' (case dest of None \<Rightarrow> src | Some d \<Rightarrow> d) = Inr m \<and>
              map_of m ''huggingface'' = Some t)) \<and>
      (fs src = Some (Parquet f) \<and> map_of (schema_meta f) ''ARROW:schema'' = None \<longrightarrow>
         (\<exists>f'. fs' (case dest of None \<Rightarrow> src | Some d \<Rightarrow> d) = Some (Parquet f') \<and>
               map_of (schema_meta f') ''huggingface'' = Some t \<and>
               map_of (file_meta f') ''huggingface'' = Some t))"
      by (rule conjI)
  qed
  have b: "(\<forall>c\<in>set s. 0x20 \<le> c \<and> c \<noteq> 0x22 \<and> c \<noteq> 0x5C) \<longrightarrow>
      dumps fr (JStr s) = [0x22] @ s @ [0x22]"
    using basestring_plain [of s] by simp
  have c: "(\<forall>w. \<forall>c\<in>set (fr w). 0x20 \<le> c) \<and> dumps_utf8 fr x = Inr t \<longrightarrow>
      (\<forall>b\<in>set t. (0x20::nat) \<le> of_char b)"
  proof (intro impI ballI, elim conjE)
    fix b assume fr: "\<forall>w. \<forall>c\<in>set (fr w). 0x20 \<le> c" and d: "dumps_utf8 fr x = Inr t" and b: "b \<in> set t"
    from fr have p: "\<forall>c\<in>set (dumps fr x). 0x20 \<le> c" using dumps_printable [of fr _ x] by blast
    from d have d': "encode_utf8 (dumps fr x) = Inr t" by (simp add: dumps_utf8_def)
    show "(0x20::nat) \<le> of_char b" by (rule encode_utf8_printable [OF d' p b])
  qed
  have d: "dumps fr (JArr (y # z # ys)) =
     u ''['' @ dumps fr y @ u '', '' @ join (u '', '') (map (dumps fr) (z # ys)) @ u '']''"
    by simp
  have e: "dumps fr (JObj ((k, v) # e # es)) =
     u ''{'' @ py_encode_basestring k @ u '': '' @ dumps fr v @ u '', '' @
     join (u '', '') (map (\<lambda>e. py_encode_basestring (fst e) @ u '': '' @ dumps fr (snd e)) (e # es)) @
     u ''}''"
    by simp
  from a b c d e show ?thesis by blast
qed

theorem serialisation_is_shared_and_unescaped_witness:
  "dumps_utf8 sample_repr (JObj sample_doc_done) = Inr blob_sequence \<and>
   write_with_hf_metadata sample_repr io_ok sample_path None (JObj sample_doc_done) (fs_with list_file)
     = (Inr (), (fs_with list_file)(sample_path \<mapsto>
          written_file io_ok \<lparr>tmeta = [(''huggingface'', blob_sequence)], tdata = ''rows''\<rparr>)) \<and>
   \<not> read_fails io_ok \<and>
   fs_with list_file sample_path = Some (Parquet list_file) \<and>
   map_of (schema_meta list_file) ''ARROW:schema'' = None \<and>
   written_file io_ok \<lparr>tmeta = [(''huggingface'', blob_sequence)], tdata = ''rows''\<rparr>
     = Parquet done_file \<and>
   map_of (schema_meta done_file) ''huggingface'' = Some blob_sequence \<and>
   map_of (file_meta done_file) ''huggingface'' = Some blob_sequence \<and>
   (\<exists>m. pq_read_metadata io_ok
          ((fs_with list_file)(sample_path \<mapsto>
             written_file io_ok \<lparr>tmeta = [(''huggingface'', blob_sequence)], tdata = ''rows''\<rparr>))
          sample_path = Inr m \<and>
        map_of m ''huggingface'' = Some blob_sequence) \<and>
   dumps sample_repr (JStr [0xE9, 0x20AC]) = [0x22, 0xE9, 0x20AC, 0x22] \<and>
   dumps_utf8 sample_repr (JStr [0xE9, 0x20AC]) =
     Inr [char_of (0x22::nat), char_of (0xC3::nat), char_of (0xA9::nat), char_of (0xE2::nat),
          char_of (0x82::nat), char_of (0xAC::nat), char_of (0x22::nat)] \<and>
   list_all (\<lambda>b. (0x20::nat) \<le> of_char b) blob_sequence"
proof -
  have p: "\<forall>c\<in>set [0xE9, 0x20AC :: nat]. 0x20 \<le> c \<and> c \<noteq> 0x22 \<and> c \<noteq> 0x5C" by simp
  have r: "\<forall>w. \<forall>c\<in>set (sample_repr w). 0x20 \<le> c" by (simp add: sample_repr_def u_def)
  have nr: "\<not> read_fails io_ok" by (simp add: io_ok_def)
  have sp: "fs_with list_file sample_path = Some (Parquet list_file)" by (simp add: fs_with_def)
  have na: "map_of (schema_meta list_file) ''ARROW:schema'' = None" by (simp add: list_file_def)
  have m: "map_of (schema_meta done_file) ''huggingface'' = Some blob_sequence"
    "map_of (file_meta done_file) ''huggingface'' = Some blob_sequence"
    by (simp_all add: done_file_def)
  note T = serialisation_is_shared_and_unescaped [where fr = sample_repr and x = "JObj sample_doc_done"
        and t = blob_sequence and s = "[0xE9, 0x20AC]" and i = io_ok and src = sample_path
        and dest = None and fs = "fs_with list_file" and i' = io_ok and f = list_file
        and fs' = "(fs_with list_file)(sample_path \<mapsto>
          written_file io_ok \<lparr>tmeta = [(''huggingface'', blob_sequence)], tdata = ''rows''\<rparr>)"]
  note T1 = T [THEN conjunct1, THEN mp, OF conjI [OF dumps_sample_doc_done sample_write_ok]]
  have c1: "\<exists>m. pq_read_metadata io_ok
          ((fs_with list_file)(sample_path \<mapsto>
             written_file io_ok \<lparr>tmeta = [(''huggingface'', blob_sequence)], tdata = ''rows''\<rparr>))
          sample_path = Inr m \<and>
        map_of m ''huggingface'' = Some blob_sequence"
    using T1 [THEN conjunct1, THEN mp, OF nr] by simp
  have c2: "dumps sample_repr (JStr [0xE9, 0x20AC]) = [0x22, 0xE9, 0x20AC, 0x22]"
    using T [THEN conjunct2, THEN conjunct1, THEN mp, OF p] by simp
  have e: "dumps_utf8 sample_repr (JStr [0xE9, 0x20AC]) =
     Inr [char_of (0x22::nat), char_of (0xC3::nat), char_of (0xA9::nat), char_of (0xE2::nat),
          char_of (0x82::nat), char_of (0xAC::nat), char_of (0x22::nat)]"
    unfolding dumps_utf8_def c2 by (simp add: utf8_char_def)
  have c3: "\<forall>b\<in>set blob_sequence. (0x20::nat) \<le> of_char b"
    by (rule T [THEN conjunct2, THEN conjunct2, THEN conjunct1, THEN mp,
          OF conjI [OF r dumps_sample_doc_done]])
  from c3 have c3': "list_all (\<lambda>b. (0x20::nat) \<le> of_char b) blob_sequence"
    by (simp only: list_all_iff)
  show ?thesis
    by (intro conjI) (fact dumps_sample_doc_done sample_write_ok nr sp na sample_written_done m c1 c2 e c3')+
qed

section \<open>Choosing the source\<close>

lemma read_hf_metadata_file:
  "bytes_truthy (map_of (file_meta f) ''huggingface'') \<Longrightarrow>
   read_hf_metadata loads f =
     \<lparr>source = SrcFile,
      json = (case map_of (file_meta f) ''huggingface'' of
                Some b \<Rightarrow> (case loads b of Some d \<Rightarrow> d | None \<Rightarrow> JNull) | None \<Rightarrow> JNull),
      raw_file = map_of (file_meta f) ''huggingface'',
      raw_schema = map_of (schema_meta f) ''huggingface''\<rparr>"
  by (simp add: read_hf_metadata_def Let_def)

lemma read_hf_metadata_schema:
  "\<not> bytes_truthy (map_of (file_meta f) ''huggingface'') \<Longrightarrow>
   bytes_truthy (map_of (schema_meta f) ''huggingface'') \<Longrightarrow>
   read_hf_metadata loads f =
     \<lparr>source = SrcSchema,
      json = (case map_of (schema_meta f) ''huggingface'' of
                Some b \<Rightarrow> (case loads b of Some d \<Rightarrow> d | None \<Rightarrow> JNull) | None \<Rightarrow> JNull),
      raw_file = map_of (file_meta f) ''huggingface'',
      raw_schema = map_of (schema_meta f) ''huggingface''\<rparr>"
  by (simp add: read_hf_metadata_def Let_def)

lemma read_hf_metadata_none:
  "\<not> bytes_truthy (map_of (file_meta f) ''huggingface'') \<Longrightarrow>
   \<not> bytes_truthy (map_of (schema_meta f) ''huggingface'') \<Longrightarrow>
   read_hf_metadata loads f = \<lparr>source = SrcNone, json = JNull, raw_file = None, raw_schema = None\<rparr>"
  by (simp add: read_hf_metadata_def Let_def)

lemma fix_parquet_opened:
  assumes "\<not> (case arg_limit a of None \<Rightarrow> False | Some l \<Rightarrow> l \<le> seen_parquet s)"
      and "pq_open i (files s) p = Inr f"
  shows "fix_parquet loads fr a i p rel s =
     (let s' = s\<lparr>total_parquet := total_parquet s + 1, seen_parquet := seen_parquet s + 1\<rparr>;
          hf_meta = read_hf_metadata loads f
      in if source hf_meta = SrcNone \<or> json hf_meta = JNull then fix_no_meta a i p rel s'
         else fix_rewrite loads fr a i p rel hf_meta s')"
  using assms by (cases "arg_limit a") (simp_all add: fix_parquet_def Let_def)


lemma broken_facts:
  "map_of (file_meta broken_file) ''huggingface'' = Some blob_broken"
  "map_of (schema_meta broken_file) ''huggingface'' = Some blob_list"
  "blob_broken \<noteq> []"
  "sample_loads blob_broken = None"
  "sample_loads blob_list = Some (JObj sample_doc)"
  by (simp_all add: broken_file_def blob_broken_def sample_loads_def blob_list_def blob_sequence_def
        blob_plain_def)

lemma broken_open: "pq_open io_ok (files (start (fs_with broken_file))) sample_path = Inr broken_file"
  by (simp add: pq_open_def start_def fs_with_def io_ok_def)


text \<open>
  A footer blob that is present and does not parse is not treated as absent: for
  \<open>broken_file\<close>, whose schema blob parses, the reader still reports the source
  \<open>file\<close> with no JSON, and \<open>main\<close> skips the file as having no metadata.
\<close>

theorem broken_file_blob_hides_schema_json:
  "map_of (file_meta broken_file) ''huggingface'' = Some blob_broken \<and>
   sample_loads blob_broken = None \<and>
   map_of (schema_meta broken_file) ''huggingface'' = Some blob_list \<and>
   sample_loads blob_list = Some (JObj sample_doc) \<and>
   source (read_hf_metadata sample_loads broken_file) = SrcFile \<and>
   json (read_hf_metadata sample_loads broken_file) = JNull \<and>
   fix_parquet sample_loads sample_repr args_in_place io_ok sample_path [''f.parquet'']
     (start (fs_with broken_file))
   = (Inr (), (start (fs_with broken_file))
        \<lparr>total_parquet := 1, seen_parquet := 1, printed := [SkipNoMeta sample_path]\<rparr>)"
proof -
  have t: "bytes_truthy (map_of (file_meta broken_file) ''huggingface'')"
    by (simp add: bytes_truthy_def broken_facts)
  have r: "source (read_hf_metadata sample_loads broken_file) = SrcFile"
    "json (read_hf_metadata sample_loads broken_file) = JNull"
    by (simp_all add: read_hf_metadata_file [OF t] broken_facts)
  have l: "\<not> (case arg_limit args_in_place of None \<Rightarrow> False
              | Some l \<Rightarrow> l \<le> seen_parquet (start (fs_with broken_file)))"
    by (simp add: args_in_place_def)
  have o: "arg_out args_in_place = None" by (simp add: args_in_place_def)
  have f: "fix_parquet sample_loads sample_repr args_in_place io_ok sample_path [''f.parquet'']
     (start (fs_with broken_file))
   = (Inr (), (start (fs_with broken_file))
        \<lparr>total_parquet := 1, seen_parquet := 1, printed := [SkipNoMeta sample_path]\<rparr>)"
    by (subst fix_parquet_opened [OF l broken_open])
       (simp add: r fix_no_meta_def out_root_def o start_def)
  from broken_facts r f show ?thesis by simp
qed


lemma fix_no_meta_cases:
  "fix_no_meta a i p rel s =
     (case out_root a of
        None \<Rightarrow> (Inr (), s\<lparr>printed := printed s @ [SkipNoMeta p]\<rparr>)
      | Some ot \<Rightarrow>
          if arg_apply a then
            (case mirror_copy i p (ot @ rel) (files s) of
               (Inl e, fs') \<Rightarrow> (Inl e, s\<lparr>files := fs'\<rparr>)
             | (Inr _, fs') \<Rightarrow>
                 (Inr (), s\<lparr>files := fs', printed := printed s @ [CopyNoMeta True p (ot @ rel)]\<rparr>))
          else (Inr (), s\<lparr>printed := printed s @ [CopyNoMeta False p (ot @ rel)]\<rparr>))"
  by (simp add: fix_no_meta_def Let_def split: option.splits)

lemma broken_mirror_copy:
  "mirror_copy io_ok sample_path [''m'', ''d'', ''f.parquet''] (fs_with broken_file)
     = (Inr (), (fs_with broken_file)([''m''] \<mapsto> Dir, [''m'', ''d''] \<mapsto> Dir,
                   [''m'', ''d'', ''f.parquet''] \<mapsto> Parquet broken_file))"
proof -
  have m: "mkdir_parents io_ok [''m'', ''d''] (fs_with broken_file)
             = (Inr (), (fs_with broken_file)([''m''] \<mapsto> Dir, [''m'', ''d''] \<mapsto> Dir))"
    by (simp add: mkdir_parents_def io_ok_def fs_with_def sample_path_def)
  have c: "copy2 io_ok sample_path [''m'', ''d'', ''f.parquet'']
             ((fs_with broken_file)([''m''] \<mapsto> Dir, [''m'', ''d''] \<mapsto> Dir))
           = (Inr (), (fs_with broken_file)([''m''] \<mapsto> Dir, [''m'', ''d''] \<mapsto> Dir,
                   [''m'', ''d'', ''f.parquet''] \<mapsto> Parquet broken_file))"
    by (simp add: copy2_def io_ok_def fs_with_def sample_path_def Let_def)
  show ?thesis
    by (simp add: mirror_copy_def parent_def m c)
qed

text \<open>
  Claim C4, as the code has it. The reader picks its source before it decodes anything:
  when the file-level blob is present and not empty but fails to decode or parse, the
  source is \<open>file\<close> and there is no JSON, whatever the schema-level blob holds. \<open>main\<close>
  then handles the file as one without metadata: in place it prints the skip line and
  changes nothing; with a mirror and without \<open>--apply\<close> it prints the copy line; with a
  mirror and \<open>--apply\<close> it makes the parent directory of the destination and copies the
  file there, and only that copy can raise. The schema-level blob is the reader's
  source exactly when the file-level blob is absent or empty and the schema-level blob is
  neither; the JSON the reader then reports is what that blob parses to, and under the
  \<open>auto\<close> preference the JSON that \<open>main\<close> goes on with is the reader's.
\<close>

theorem unparsable_file_blob_means_no_metadata:
  fixes s :: run
  defines "s1 \<equiv> s\<lparr>total_parquet := total_parquet s + 1, seen_parquet := seen_parquet s + 1\<rparr>"
  assumes blob: "map_of (file_meta f) ''huggingface'' = Some b" and ne: "b \<noteq> []"
      and bad: "loads b = None"
      and lim: "\<not> (case arg_limit a of None \<Rightarrow> False | Some l \<Rightarrow> l \<le> seen_parquet s)"
      and op: "pq_open i (files s) p = Inr f"
  shows "source (read_hf_metadata loads f) = SrcFile \<and>
         json (read_hf_metadata loads f) = JNull \<and>
         (out_root a = None \<longrightarrow>
            fix_parquet loads fr a i p rel s =
              (Inr (), s1\<lparr>printed := printed s @ [SkipNoMeta p]\<rparr>)) \<and>
         (out_root a = Some ot \<and> \<not> arg_apply a \<longrightarrow>
            fix_parquet loads fr a i p rel s =
              (Inr (), s1\<lparr>printed := printed s @ [CopyNoMeta False p (ot @ rel)]\<rparr>)) \<and>
         (out_root a = Some ot \<and> arg_apply a \<longrightarrow>
            fix_parquet loads fr a i p rel s =
              (case mirror_copy i p (ot @ rel) (files s) of
                 (Inl e, fs') \<Rightarrow> (Inl e, s1\<lparr>files := fs'\<rparr>)
               | (Inr _, fs') \<Rightarrow>
                   (Inr (), s1\<lparr>files := fs',
                               printed := printed s @ [CopyNoMeta True p (ot @ rel)]\<rparr>))) \<and>
         (source (read_hf_metadata loads g) = SrcSchema \<longleftrightarrow>
            \<not> bytes_truthy (map_of (file_meta g) ''huggingface'') \<and>
            bytes_truthy (map_of (schema_meta g) ''huggingface'')) \<and>
         (source (read_hf_metadata loads g) = SrcSchema \<longrightarrow>
            json (read_hf_metadata loads g) =
              (case map_of (schema_meta g) ''huggingface'' of
                 Some b' \<Rightarrow> (case loads b' of Some d \<Rightarrow> d | None \<Rightarrow> JNull)
               | None \<Rightarrow> JNull)) \<and>
         choose_json loads PreferAuto (read_hf_metadata loads g) = json (read_hf_metadata loads g)"
proof -
  from blob ne have t: "bytes_truthy (map_of (file_meta f) ''huggingface'')"
    by (simp add: bytes_truthy_def)
  have r: "source (read_hf_metadata loads f) = SrcFile" "json (read_hf_metadata loads f) = JNull"
    using blob bad by (simp_all add: read_hf_metadata_file [OF t])
  have m: "fix_parquet loads fr a i p rel s = fix_no_meta a i p rel s1"
    unfolding s1_def by (simp add: fix_parquet_opened [OF lim op] r Let_def)
  have ps: "printed s1 = printed s" "files s1 = files s" by (simp_all add: s1_def)
  have n1: "out_root a = None \<longrightarrow>
            fix_parquet loads fr a i p rel s =
              (Inr (), s1\<lparr>printed := printed s @ [SkipNoMeta p]\<rparr>)"
    unfolding m fix_no_meta_cases ps by simp
  have n2: "out_root a = Some ot \<and> \<not> arg_apply a \<longrightarrow>
            fix_parquet loads fr a i p rel s =
              (Inr (), s1\<lparr>printed := printed s @ [CopyNoMeta False p (ot @ rel)]\<rparr>)"
    unfolding m fix_no_meta_cases ps by simp
  have n3: "out_root a = Some ot \<and> arg_apply a \<longrightarrow>
            fix_parquet loads fr a i p rel s =
              (case mirror_copy i p (ot @ rel) (files s) of
                 (Inl e, fs') \<Rightarrow> (Inl e, s1\<lparr>files := fs'\<rparr>)
               | (Inr _, fs') \<Rightarrow>
                   (Inr (), s1\<lparr>files := fs',
                               printed := printed s @ [CopyNoMeta True p (ot @ rel)]\<rparr>))"
    unfolding m fix_no_meta_cases ps by simp
  have g1: "source (read_hf_metadata loads g) = SrcSchema \<longleftrightarrow>
            \<not> bytes_truthy (map_of (file_meta g) ''huggingface'') \<and>
            bytes_truthy (map_of (schema_meta g) ''huggingface'')"
    by (simp add: read_hf_metadata_def Let_def)
  have g2: "source (read_hf_metadata loads g) = SrcSchema \<longrightarrow>
            json (read_hf_metadata loads g) =
              (case map_of (schema_meta g) ''huggingface'' of
                 Some b' \<Rightarrow> (case loads b' of Some d \<Rightarrow> d | None \<Rightarrow> JNull)
               | None \<Rightarrow> JNull)"
    by (simp add: read_hf_metadata_def Let_def)
  have g3: "choose_json loads PreferAuto (read_hf_metadata loads g) = json (read_hf_metadata loads g)"
    by (simp add: choose_json_def)
  from r n1 n2 n3 g1 g2 g3 show ?thesis by blast
qed

theorem unparsable_file_blob_means_no_metadata_witness:
  "map_of (file_meta broken_file) ''huggingface'' = Some blob_broken \<and>
   blob_broken \<noteq> [] \<and>
   sample_loads blob_broken = None \<and>
   map_of (schema_meta broken_file) ''huggingface'' = Some blob_list \<and>
   sample_loads blob_list = Some (JObj sample_doc) \<and>
   pq_open io_ok (files (start (fs_with broken_file))) sample_path = Inr broken_file \<and>
   out_root args_in_place = None \<and>
   fix_parquet sample_loads sample_repr args_in_place io_ok sample_path [''f.parquet'']
     (start (fs_with broken_file))
   = (Inr (), (start (fs_with broken_file))
        \<lparr>total_parquet := 1, seen_parquet := 1, printed := [SkipNoMeta sample_path]\<rparr>) \<and>
   out_root args_mirror = Some [''m'', ''d''] \<and>
   arg_apply args_mirror \<and>
   fix_parquet sample_loads sample_repr args_mirror io_ok sample_path [''f.parquet'']
     (start (fs_with broken_file))
   = (Inr (), (start (fs_with broken_file))
        \<lparr>total_parquet := 1, seen_parquet := 1,
         files := (fs_with broken_file)([''m''] \<mapsto> Dir, [''m'', ''d''] \<mapsto> Dir,
                     [''m'', ''d'', ''f.parquet''] \<mapsto> Parquet broken_file),
         printed := [CopyNoMeta True sample_path [''m'', ''d'', ''f.parquet'']]\<rparr>) \<and>
   source (read_hf_metadata sample_loads empty_blob_file) \<noteq> SrcSchema"
proof -
  have l1: "\<not> (case arg_limit args_in_place of None \<Rightarrow> False
              | Some l \<Rightarrow> l \<le> seen_parquet (start (fs_with broken_file)))"
    by (simp add: args_in_place_def)
  have l2: "\<not> (case arg_limit args_mirror of None \<Rightarrow> False
              | Some l \<Rightarrow> l \<le> seen_parquet (start (fs_with broken_file)))"
    by (simp add: args_mirror_def args_in_place_def)
  have o1: "out_root args_in_place = None" by (simp add: out_root_def args_in_place_def)
  have o2: "out_root args_mirror = Some [''m'', ''d'']"
    by (simp add: out_root_def args_mirror_def args_in_place_def path_join_def path_name_def)
  have ap: "arg_apply args_mirror" by (simp add: args_mirror_def args_in_place_def)
  have z: "total_parquet (start (fs_with broken_file)) = 0" "seen_parquet (start (fs_with broken_file)) = 0"
    "printed (start (fs_with broken_file)) = []"
    "files (start (fs_with broken_file)) = fs_with broken_file"
    by (simp_all add: start_def)
  have e: "\<not> bytes_truthy (map_of (schema_meta empty_blob_file) ''huggingface'')"
    by (simp add: empty_blob_file_def bytes_truthy_def)
  note T1 = unparsable_file_blob_means_no_metadata [where loads = sample_loads
        and a = args_in_place and rel = "[''f.parquet'']" and fr = sample_repr
        and g = empty_blob_file,
      OF broken_facts(1) broken_facts(3) broken_facts(4) l1 broken_open]
  note T2 = unparsable_file_blob_means_no_metadata [where loads = sample_loads
        and a = args_mirror and rel = "[''f.parquet'']" and fr = sample_repr
        and ot = "[''m'', ''d'']" and g = empty_blob_file,
      OF broken_facts(1) broken_facts(3) broken_facts(4) l2 broken_open]
  have m1: "fix_parquet sample_loads sample_repr args_in_place io_ok sample_path [''f.parquet'']
     (start (fs_with broken_file))
   = (Inr (), (start (fs_with broken_file))
        \<lparr>total_parquet := 1, seen_parquet := 1, printed := [SkipNoMeta sample_path]\<rparr>)"
    using T1 [THEN conjunct2, THEN conjunct2, THEN conjunct1, THEN mp, OF o1]
    by (simp add: z)
  have m2: "fix_parquet sample_loads sample_repr args_mirror io_ok sample_path [''f.parquet'']
     (start (fs_with broken_file))
   = (Inr (), (start (fs_with broken_file))
        \<lparr>total_parquet := 1, seen_parquet := 1,
         files := (fs_with broken_file)([''m''] \<mapsto> Dir, [''m'', ''d''] \<mapsto> Dir,
                     [''m'', ''d'', ''f.parquet''] \<mapsto> Parquet broken_file),
         printed := [CopyNoMeta True sample_path [''m'', ''d'', ''f.parquet'']]\<rparr>)"
    using T2 [THEN conjunct2, THEN conjunct2, THEN conjunct2, THEN conjunct2, THEN conjunct1,
              THEN mp, OF conjI [OF o2 ap]]
    by (simp add: z broken_mirror_copy)
  from T1 e have g: "source (read_hf_metadata sample_loads empty_blob_file) \<noteq> SrcSchema"
    by simp
  show ?thesis
    by (intro conjI) (fact broken_facts broken_open o1 m1 o2 ap m2 g)+
qed

section \<open>Empty blobs\<close>

lemma absent_if_empty_eq:
  assumes "absent_if_empty x = absent_if_empty y"
  shows "bytes_truthy x = bytes_truthy y"
    and "bytes_truthy x \<Longrightarrow> x = y"
    and "t \<noteq> [] \<Longrightarrow> (x = Some t) = (y = Some t)"
  using assms by (auto simp: absent_if_empty_def bytes_truthy_def split: if_splits)

lemma absent_if_empty_None: "absent_if_empty x = None \<longleftrightarrow> \<not> bytes_truthy x"
  by (auto simp: absent_if_empty_def bytes_truthy_def)

lemma pq_open_read_metadata:
  "pq_open i fs p = Inr f \<Longrightarrow> pq_read_metadata i fs p = Inr (file_meta f)"
  by (auto simp: pq_open_def pq_read_metadata_def split: if_splits option.splits fobj.splits)

lemma cv_parquet_opened:
  assumes "\<not> (case arg_limit a of None \<Rightarrow> False | Some l \<Rightarrow> l \<le> seen_parquet s)"
      and "pq_open i (files s) p = Inr f"
      and "fst (load_hf_metadata loads (file_meta f)) = JNull"
  shows "cv_parquet loads fr a i p rel s =
           cv_no_meta a i p rel
             (s\<lparr>seen_parquet := seen_parquet s + 1, total_parquet := total_parquet s + 1\<rparr>)"
  using assms(1,3) pq_open_read_metadata [OF assms(2)]
  by (cases "arg_limit a"; cases "load_hf_metadata loads (file_meta f)")
     (simp_all add: cv_parquet_def Let_def)

lemma same_decisions:
  assumes a1: "absent_if_empty (map_of (file_meta f) ''huggingface'') =
               absent_if_empty (map_of (file_meta g) ''huggingface'')"
      and a2: "absent_if_empty (map_of (schema_meta f) ''huggingface'') =
               absent_if_empty (map_of (schema_meta g) ''huggingface'')"
  shows "source (read_hf_metadata loads f) = source (read_hf_metadata loads g)"
    and "json (read_hf_metadata loads f) = json (read_hf_metadata loads g)"
    and "choose_json loads pref (read_hf_metadata loads f) =
         choose_json loads pref (read_hf_metadata loads g)"
    and "t \<noteq> [] \<Longrightarrow> needs_write (read_hf_metadata loads f) t = needs_write (read_hf_metadata loads g) t"
    and "fst (load_hf_metadata loads (file_meta f)) = fst (load_hf_metadata loads (file_meta g))"
proof -
  let ?rf = "map_of (file_meta f) ''huggingface''" and ?rg = "map_of (file_meta g) ''huggingface''"
  let ?sf = "map_of (schema_meta f) ''huggingface''" and ?sg = "map_of (schema_meta g) ''huggingface''"
  note r = absent_if_empty_eq [OF a1] and s = absent_if_empty_eq [OF a2]
  consider (in_file) "bytes_truthy ?rf" | (in_schema) "\<not> bytes_truthy ?rf" "bytes_truthy ?sf"
    | (nowhere) "\<not> bytes_truthy ?rf" "\<not> bytes_truthy ?sf" by blast
  then have "source (read_hf_metadata loads f) = source (read_hf_metadata loads g) \<and>
    json (read_hf_metadata loads f) = json (read_hf_metadata loads g) \<and>
    choose_json loads pref (read_hf_metadata loads f) =
         choose_json loads pref (read_hf_metadata loads g) \<and>
    (t \<noteq> [] \<longrightarrow> needs_write (read_hf_metadata loads f) t = needs_write (read_hf_metadata loads g) t)"
  proof cases
    case in_file
    with r(1) have g: "bytes_truthy ?rg" by simp
    from r(2) [OF in_file] have e: "?rf = ?rg" .
    show ?thesis
      using s(1) s(2) s(3) [of t]
      by (auto simp: read_hf_metadata_file [OF in_file] read_hf_metadata_file [OF g] e
            choose_json_def needs_write_def Let_def split: option.splits)
  next
    case in_schema
    with r(1) s(1) have g: "\<not> bytes_truthy ?rg" "bytes_truthy ?sg" by simp_all
    from s(2) [OF in_schema(2)] have e: "?sf = ?sg" .
    show ?thesis
      using in_schema g r(3) [of t]
      by (auto simp: read_hf_metadata_schema [OF in_schema] read_hf_metadata_schema [OF g] e
            choose_json_def needs_write_def Let_def split: option.splits)
  next
    case nowhere
    with r(1) s(1) have g: "\<not> bytes_truthy ?rg" "\<not> bytes_truthy ?sg" by simp_all
    show ?thesis
      by (simp add: read_hf_metadata_none [OF nowhere] read_hf_metadata_none [OF g]
            choose_json_def needs_write_def split: option.splits)
  qed
  then show "source (read_hf_metadata loads f) = source (read_hf_metadata loads g)"
    and "json (read_hf_metadata loads f) = json (read_hf_metadata loads g)"
    and "choose_json loads pref (read_hf_metadata loads f) =
         choose_json loads pref (read_hf_metadata loads g)"
    and "t \<noteq> [] \<Longrightarrow> needs_write (read_hf_metadata loads f) t = needs_write (read_hf_metadata loads g) t"
    by blast+
  show "fst (load_hf_metadata loads (file_meta f)) = fst (load_hf_metadata loads (file_meta g))"
    using r(1) r(2) by (auto simp: load_hf_metadata_def Let_def split: option.splits)
qed

lemma fst_pq_write_table:
  "fs p = Some (Parquet f) \<Longrightarrow>
   fst (pq_write_table i t p fs) = (case write_fault i of WriteOk \<Rightarrow> Inr () | _ \<Rightarrow> Inl OSError)"
  by (simp add: pq_write_table_def split: wfault.splits)

lemma fst_normalize_file:
  assumes "fs p = Some (Parquet f)"
  shows "fst (normalize_file loads fr i p dry fs) =
     (if read_fails i then Inl OSError
      else
        (let hf_file = map_of (file_meta f) ''huggingface'';
             hf_schema = map_of (schema_meta f) ''huggingface''
         in if \<not> bytes_truthy hf_file \<and> \<not> bytes_truthy hf_schema then Inr (False, NoHfMetadata)
            else case (if bytes_truthy hf_file then hf_file else hf_schema) of
                   None \<Rightarrow> Inr (False, InvalidHfJson)
                 | Some sb \<Rightarrow>
                     (case loads sb of
                        None \<Rightarrow> Inr (False, InvalidHfJson)
                      | Some src_json \<Rightarrow>
                          if hf_schema = Some sb then Inr (False, SchemaUpToDate)
                          else if dry then Inr (True, WouldUpdate)
                          else (case dumps_utf8 fr src_json of
                                  Inl e \<Rightarrow> Inl e
                                | Inr blob \<Rightarrow>
                                    (case write_fault i of
                                       WriteOk \<Rightarrow> Inr (True, Updated)
                                     | _ \<Rightarrow> Inl OSError)))))"
proof (cases "read_fails i")
  case True
  then show ?thesis by (simp add: normalize_file_def pq_open_def)
next
  case False
  with assms have o: "pq_open i fs p = Inr f" by (simp add: pq_open_def)
  have rt: "pq_read_table i fs p = Inr \<lparr>tmeta = schema_meta f, tdata = payload f\<rparr>"
    by (simp add: pq_read_table_def o)
  have w: "fst (case pq_write_table i t p fs of (Inl e, fs1) \<Rightarrow> (Inl e, fs1)
                | (Inr x, fs1) \<Rightarrow> (Inr (True, Updated), fs1))
           = (case write_fault i of WriteOk \<Rightarrow> Inr (True, Updated) | _ \<Rightarrow> Inl OSError)" for t
    using assms by (simp add: pq_write_table_def split: wfault.splits)
  show ?thesis
    using False
    by (simp add: normalize_file_def o rt w Let_def split: option.splits sum.splits)
qed

text \<open>
  Claim C10. Two files whose \<open>huggingface\<close> slots agree once an empty blob is read as
  an absent one get the same decisions everywhere: the same source and JSON from the
  reader of the fix script, the same JSON under every preference, the same answer to
  "needs write" for every non-empty target (the target is the text of an object, never
  empty), the same parsed blob in the convert script, the same outcome of
  \<open>normalize_file\<close>. An empty blob is never the source. A file whose slots are all
  empty or absent has no usable metadata: source \<open>none\<close>, \<open>None\<close> from
  \<open>load_hf_metadata\<close>, "no hf metadata" and no change from \<open>normalize_file\<close>, and the
  copy-or-skip branch of both main functions.
\<close>

theorem empty_blob_counts_as_absent:
  assumes a1: "absent_if_empty (map_of (file_meta f) ''huggingface'') =
               absent_if_empty (map_of (file_meta g) ''huggingface'')"
      and a2: "absent_if_empty (map_of (schema_meta f) ''huggingface'') =
               absent_if_empty (map_of (schema_meta g) ''huggingface'')"
  shows "source (read_hf_metadata loads f) = source (read_hf_metadata loads g) \<and>
     json (read_hf_metadata loads f) = json (read_hf_metadata loads g) \<and>
     choose_json loads pref (read_hf_metadata loads f) =
       choose_json loads pref (read_hf_metadata loads g) \<and>
     (t \<noteq> [] \<longrightarrow>
        needs_write (read_hf_metadata loads f) t = needs_write (read_hf_metadata loads g) t) \<and>
     fst (load_hf_metadata loads (file_meta f)) = fst (load_hf_metadata loads (file_meta g)) \<and>
     (fs p = Some (Parquet f) \<and> fs' p = Some (Parquet g) \<longrightarrow>
        fst (normalize_file loads fr i p dry fs) = fst (normalize_file loads fr i p dry fs')) \<and>
     (map_of (file_meta f) ''huggingface'' = Some [] \<longrightarrow>
        source (read_hf_metadata loads f) \<noteq> SrcFile) \<and>
     (map_of (schema_meta f) ''huggingface'' = Some [] \<longrightarrow>
        source (read_hf_metadata loads f) \<noteq> SrcSchema) \<and>
     (absent_if_empty (map_of (file_meta f) ''huggingface'') = None \<and>
      absent_if_empty (map_of (schema_meta f) ''huggingface'') = None \<longrightarrow>
        source (read_hf_metadata loads f) = SrcNone \<and>
        fst (load_hf_metadata loads (file_meta f)) = JNull \<and>
        (fs p = Some (Parquet f) \<and> \<not> read_fails i \<longrightarrow>
           normalize_file loads fr i p dry fs = (Inr (False, NoHfMetadata), fs)) \<and>
        (\<not> (case arg_limit a of None \<Rightarrow> False | Some l \<Rightarrow> l \<le> seen_parquet s) \<and>
         pq_open i (files s) p = Inr f \<longrightarrow>
           fix_parquet loads fr a i p rel s =
             fix_no_meta a i p rel
               (s\<lparr>total_parquet := total_parquet s + 1, seen_parquet := seen_parquet s + 1\<rparr>) \<and>
           cv_parquet loads fr a i p rel s =
             cv_no_meta a i p rel
               (s\<lparr>seen_parquet := seen_parquet s + 1, total_parquet := total_parquet s + 1\<rparr>)))"
proof -
  note d = same_decisions [OF a1 a2]
  have n: "fs p = Some (Parquet f) \<and> fs' p = Some (Parquet g) \<longrightarrow>
        fst (normalize_file loads fr i p dry fs) = fst (normalize_file loads fr i p dry fs')"
  proof (intro impI, elim conjE)
    assume f: "fs p = Some (Parquet f)" and g: "fs' p = Some (Parquet g)"
    note r = absent_if_empty_eq [OF a1] and s = absent_if_empty_eq [OF a2]
    show "fst (normalize_file loads fr i p dry fs) = fst (normalize_file loads fr i p dry fs')"
    proof (cases "bytes_truthy (map_of (file_meta f) ''huggingface'')")
      case True
      then obtain b where b: "map_of (file_meta f) ''huggingface'' = Some b" "b \<noteq> []"
        by (auto simp: bytes_truthy_def)
      from r(2) [OF True] b have bg: "map_of (file_meta g) ''huggingface'' = Some b" by simp
      from s(3) [OF b(2)] show ?thesis
        by (auto simp: fst_normalize_file [of fs p f, OF f] fst_normalize_file [of fs' p g, OF g]
              b bg bytes_truthy_def split: option.splits)
    next
      case False
      with r(1) have fg: "\<not> bytes_truthy (map_of (file_meta g) ''huggingface'')" by simp
      show ?thesis
      proof (cases "bytes_truthy (map_of (schema_meta f) ''huggingface'')")
        case True
        from s(2) [OF True] True False fg show ?thesis
          by (simp add: fst_normalize_file [of fs p f, OF f] fst_normalize_file [of fs' p g, OF g])
      next
        case nt: False
        with s(1) have "\<not> bytes_truthy (map_of (schema_meta g) ''huggingface'')" by simp
        with nt False fg show ?thesis
          by (simp add: fst_normalize_file [of fs p f, OF f] fst_normalize_file [of fs' p g, OF g])
      qed
    qed
  qed
  have e1: "map_of (file_meta f) ''huggingface'' = Some [] \<longrightarrow>
        source (read_hf_metadata loads f) \<noteq> SrcFile"
    by (simp add: read_hf_metadata_def bytes_truthy_def Let_def)
  have e2: "map_of (schema_meta f) ''huggingface'' = Some [] \<longrightarrow>
        source (read_hf_metadata loads f) \<noteq> SrcSchema"
    by (simp add: read_hf_metadata_def bytes_truthy_def Let_def)
  have z: "absent_if_empty (map_of (file_meta f) ''huggingface'') = None \<and>
      absent_if_empty (map_of (schema_meta f) ''huggingface'') = None \<longrightarrow>
        source (read_hf_metadata loads f) = SrcNone \<and>
        fst (load_hf_metadata loads (file_meta f)) = JNull \<and>
        (fs p = Some (Parquet f) \<and> \<not> read_fails i \<longrightarrow>
           normalize_file loads fr i p dry fs = (Inr (False, NoHfMetadata), fs)) \<and>
        (\<not> (case arg_limit a of None \<Rightarrow> False | Some l \<Rightarrow> l \<le> seen_parquet s) \<and>
         pq_open i (files s) p = Inr f \<longrightarrow>
           fix_parquet loads fr a i p rel s =
             fix_no_meta a i p rel
               (s\<lparr>total_parquet := total_parquet s + 1, seen_parquet := seen_parquet s + 1\<rparr>) \<and>
           cv_parquet loads fr a i p rel s =
             cv_no_meta a i p rel
               (s\<lparr>seen_parquet := seen_parquet s + 1, total_parquet := total_parquet s + 1\<rparr>))"
  proof (intro impI, elim conjE)
    assume "absent_if_empty (map_of (file_meta f) ''huggingface'') = None"
      and "absent_if_empty (map_of (schema_meta f) ''huggingface'') = None"
    then have nf: "\<not> bytes_truthy (map_of (file_meta f) ''huggingface'')"
      and ns: "\<not> bytes_truthy (map_of (schema_meta f) ''huggingface'')"
      by (simp_all add: absent_if_empty_None)
    have s0: "source (read_hf_metadata loads f) = SrcNone"
      by (simp add: read_hf_metadata_none [OF nf ns])
    have l0: "fst (load_hf_metadata loads (file_meta f)) = JNull"
      using nf by (simp add: load_hf_metadata_def Let_def)
    have n0: "fs p = Some (Parquet f) \<and> \<not> read_fails i \<longrightarrow>
           normalize_file loads fr i p dry fs = (Inr (False, NoHfMetadata), fs)"
      using nf ns by (simp add: normalize_file_def pq_open_def Let_def)
    have m0: "\<not> (case arg_limit a of None \<Rightarrow> False | Some l \<Rightarrow> l \<le> seen_parquet s) \<and>
         pq_open i (files s) p = Inr f \<longrightarrow>
           fix_parquet loads fr a i p rel s =
             fix_no_meta a i p rel
               (s\<lparr>total_parquet := total_parquet s + 1, seen_parquet := seen_parquet s + 1\<rparr>) \<and>
           cv_parquet loads fr a i p rel s =
             cv_no_meta a i p rel
               (s\<lparr>seen_parquet := seen_parquet s + 1, total_parquet := total_parquet s + 1\<rparr>)"
      using s0 l0 by (auto simp: fix_parquet_opened cv_parquet_opened Let_def)
    from s0 l0 n0 m0 show "source (read_hf_metadata loads f) = SrcNone \<and>
        fst (load_hf_metadata loads (file_meta f)) = JNull \<and>
        (fs p = Some (Parquet f) \<and> \<not> read_fails i \<longrightarrow>
           normalize_file loads fr i p dry fs = (Inr (False, NoHfMetadata), fs)) \<and>
        (\<not> (case arg_limit a of None \<Rightarrow> False | Some l \<Rightarrow> l \<le> seen_parquet s) \<and>
         pq_open i (files s) p = Inr f \<longrightarrow>
           fix_parquet loads fr a i p rel s =
             fix_no_meta a i p rel
               (s\<lparr>total_parquet := total_parquet s + 1, seen_parquet := seen_parquet s + 1\<rparr>) \<and>
           cv_parquet loads fr a i p rel s =
             cv_no_meta a i p rel
               (s\<lparr>seen_parquet := seen_parquet s + 1, total_parquet := total_parquet s + 1\<rparr>))"
      by blast
  qed
  from d(1) d(2) d(3) d(4) [of t] d(5) n e1 e2 z show ?thesis by blast
qed

theorem empty_blob_counts_as_absent_witness:
  "absent_if_empty (map_of (file_meta empty_blob_file) ''huggingface'') =
     absent_if_empty (map_of (file_meta bare_file) ''huggingface'') \<and>
   absent_if_empty (map_of (schema_meta empty_blob_file) ''huggingface'') =
     absent_if_empty (map_of (schema_meta bare_file) ''huggingface'') \<and>
   map_of (file_meta empty_blob_file) ''huggingface'' = Some [] \<and>
   map_of (file_meta bare_file) ''huggingface'' = None \<and>
   source (read_hf_metadata sample_loads empty_blob_file) = SrcNone \<and>
   source (read_hf_metadata sample_loads bare_file) = SrcNone \<and>
   normalize_file sample_loads sample_repr io_ok sample_path False (fs_with empty_blob_file)
     = (Inr (False, NoHfMetadata), fs_with empty_blob_file) \<and>
   fix_parquet sample_loads sample_repr args_in_place io_ok sample_path [''f.parquet'']
       (start (fs_with empty_blob_file))
     = fix_no_meta args_in_place io_ok sample_path [''f.parquet'']
         ((start (fs_with empty_blob_file))\<lparr>total_parquet := 1, seen_parquet := 1\<rparr>)"
proof -
  have h1: "absent_if_empty (map_of (file_meta empty_blob_file) ''huggingface'') =
     absent_if_empty (map_of (file_meta bare_file) ''huggingface'')"
    by (simp add: absent_if_empty_def empty_blob_file_def bare_file_def)
  have h2: "absent_if_empty (map_of (schema_meta empty_blob_file) ''huggingface'') =
     absent_if_empty (map_of (schema_meta bare_file) ''huggingface'')"
    by (simp add: absent_if_empty_def empty_blob_file_def bare_file_def)
  have e: "map_of (file_meta empty_blob_file) ''huggingface'' = Some []"
    "map_of (file_meta bare_file) ''huggingface'' = None"
    by (simp_all add: empty_blob_file_def bare_file_def)
  have z1: "absent_if_empty (map_of (file_meta empty_blob_file) ''huggingface'') = None"
    "absent_if_empty (map_of (schema_meta empty_blob_file) ''huggingface'') = None"
    by (simp_all add: absent_if_empty_def empty_blob_file_def)
  have fsp: "fs_with empty_blob_file sample_path = Some (Parquet empty_blob_file)"
    by (simp add: fs_with_def)
  have nr: "\<not> read_fails io_ok" by (simp add: io_ok_def)
  have l: "\<not> (case arg_limit args_in_place of None \<Rightarrow> False
              | Some l \<Rightarrow> l \<le> seen_parquet (start (fs_with empty_blob_file)))"
    by (simp add: args_in_place_def)
  have o: "pq_open io_ok (files (start (fs_with empty_blob_file))) sample_path = Inr empty_blob_file"
    by (simp add: pq_open_def start_def fs_with_def io_ok_def)
  have c: "total_parquet (start (fs_with empty_blob_file)) = 0"
    "seen_parquet (start (fs_with empty_blob_file)) = 0"
    by (simp_all add: start_def)
  note T = empty_blob_counts_as_absent [where f = empty_blob_file and g = bare_file
      and loads = sample_loads and fs = "fs_with empty_blob_file" and p = sample_path
      and i = io_ok and fr = sample_repr and dry = False and a = args_in_place
      and s = "start (fs_with empty_blob_file)" and rel = "[''f.parquet'']", OF h1 h2]
  from T z1 have s1: "source (read_hf_metadata sample_loads empty_blob_file) = SrcNone"
    by blast
  from T s1 have s2: "source (read_hf_metadata sample_loads bare_file) = SrcNone"
    by simp
  from T z1 fsp nr have n: "normalize_file sample_loads sample_repr io_ok sample_path False
      (fs_with empty_blob_file) = (Inr (False, NoHfMetadata), fs_with empty_blob_file)"
    by blast
  from T z1 l o have m: "fix_parquet sample_loads sample_repr args_in_place io_ok sample_path [''f.parquet'']
       (start (fs_with empty_blob_file))
     = fix_no_meta args_in_place io_ok sample_path [''f.parquet'']
         ((start (fs_with empty_blob_file))\<lparr>total_parquet := total_parquet (start (fs_with empty_blob_file)) + 1,
            seen_parquet := seen_parquet (start (fs_with empty_blob_file)) + 1\<rparr>)"
    by blast
  from m have m': "fix_parquet sample_loads sample_repr args_in_place io_ok sample_path [''f.parquet'']
       (start (fs_with empty_blob_file))
     = fix_no_meta args_in_place io_ok sample_path [''f.parquet'']
         ((start (fs_with empty_blob_file))\<lparr>total_parquet := 1, seen_parquet := 1\<rparr>)"
    by (simp only: c) simp
  show ?thesis
    by (intro conjI) (fact h1 h2 e s1 s2 n m')+
qed

section \<open>When a file is rewritten\<close>

lemma ret3_is_obj:
  assumes "convert_list_to_sequence hf = Inr (Ret3 j n ns)"
  shows "\<exists>kvs. j = JObj kvs"
proof -
  consider
    (feat) kvs ikvs feats where "hf = JObj kvs" "map_of kvs (u ''info'') = Some (JObj ikvs)"
        "map_of ikvs (u ''features'') = Some (JObj feats)"
  | (pair) "convert_list_to_sequence hf = Inr (Ret2 hf 0)"
  | (err) "convert_list_to_sequence hf = Inl AttributeError"
    using convert_cases [of hf] by blast
  then show ?thesis
  proof cases
    case feat
    from convert_shape [OF feat(2,3)] feat(1) assms show ?thesis by auto
  next
    case pair
    with assms show ?thesis by simp
  next
    case err
    with assms show ?thesis by simp
  qed
qed

lemma dumps_obj_nonempty: "dumps_utf8 fr (JObj kvs) = Inr t \<Longrightarrow> t \<noteq> []"
  by (auto simp: dumps_utf8_def u_def utf8_char_def split: sum.splits)

lemma convert_ret3_again:
  assumes "convert_list_to_sequence hf = Inr (Ret3 j n ns)"
  shows "convert_list_to_sequence j = Inr (Ret3 j 0 [])"
proof -
  consider
    (feat) kvs ikvs feats where "hf = JObj kvs" "map_of kvs (u ''info'') = Some (JObj ikvs)"
        "map_of ikvs (u ''features'') = Some (JObj feats)"
  | (pair) "convert_list_to_sequence hf = Inr (Ret2 hf 0)"
  | (err) "convert_list_to_sequence hf = Inl AttributeError"
    using convert_cases [of hf] by blast
  then show ?thesis
  proof cases
    case feat
    from convert_shape [OF feat(2,3)] feat(1) assms
    have "j = JObj (dict_set kvs (u ''info'')
                 (JObj (dict_set ikvs (u ''features'') (JObj (map rewrite_entry feats)))))"
      by simp
    then show ?thesis by (simp only: convert_rewritten(1))
  next
    case pair
    with assms show ?thesis by simp
  next
    case err
    with assms show ?thesis by simp
  qed
qed

lemma needs_write_iff:
  "needs_write m t \<longleftrightarrow> \<not> (raw_file m = Some t \<and> raw_schema m = Some t)"
  by (auto simp: needs_write_def Let_def)

lemma fix_rewrite_ret3:
  assumes "convert_list_to_sequence (choose_json loads (arg_prefer a) m) = Inr (Ret3 j n ns)"
      and "dumps_utf8 fr j = Inr t"
  shows "fix_rewrite loads fr a i p rel m s =
     (if \<not> needs_write m t \<and> out_root a = None then
        (Inr (), s\<lparr>printed := printed s @ [OkNoChange p]\<rparr>)
      else
        (let s' = s\<lparr>affected_parquet := affected_parquet s + (if needs_write m t then 1 else 0),
                    changed_entries := changed_entries s + n\<rparr>;
             dest = map_option (\<lambda>ot. ot @ rel) (out_root a);
             shown = (case dest of Some d \<Rightarrow> d | None \<Rightarrow> p)
         in if arg_apply a then
              (case write_with_hf_metadata fr i p dest j (files s') of
                 (Inl e, fs') \<Rightarrow> (Inl e, s'\<lparr>files := fs'\<rparr>)
               | (Inr _, fs') \<Rightarrow>
                   (Inr (), s'\<lparr>files := fs', printed := printed s' @ [AppliedLine shown n ns]\<rparr>))
            else (Inr (), s'\<lparr>printed := printed s' @ [DryRunLine shown n ns]\<rparr>)))"
  using assms by (simp add: fix_rewrite_def Let_def)

text \<open>
  The run after a successful write in place, for a source whose schema metadata has no
  \<open>ARROW:schema\<close> entry of its own: given that the parser reads back what the serialiser
  wrote, the file is found consistent and left alone.
\<close>

lemma second_run_in_place:
  assumes out: "arg_out a = None"
      and conv: "convert_list_to_sequence hf = Inr (Ret3 j n ns)"
      and ser: "dumps_utf8 fr j = Inr t"
      and w: "write_with_hf_metadata fr i p None j fs = (Inr (), fs')"
      and src: "fs p = Some (Parquet srcf)"
      and own: "map_of (schema_meta srcf) ''ARROW:schema'' = None"
      and rb: "loads t = Some j"
      and st: "files s = fs'"
      and rd: "\<not> read_fails i'"
      and lim: "\<not> (case arg_limit a of None \<Rightarrow> False | Some l \<Rightarrow> l \<le> seen_parquet s)"
  shows "fix_parquet loads fr a i' p rel s =
           (Inr (), s\<lparr>total_parquet := total_parquet s + 1, seen_parquet := seen_parquet s + 1,
                       printed := printed s @ [OkNoChange p]\<rparr>)"
proof -
  from write_with_hf_metadata_keeps_other_keys [OF w src own] ser obtain f' where
    f': "fs' p = Some (Parquet f')" and
    sm: "map_of (schema_meta f') ''huggingface'' = Some t" and
    fm: "map_of (file_meta f') ''huggingface'' = Some t"
    by auto
  from ret3_is_obj [OF conv] obtain kvs where j: "j = JObj kvs" by blast
  with ser have ne: "t \<noteq> []" by (auto dest: dumps_obj_nonempty)
  from f' st rd have o: "pq_open i' (files s) p = Inr f'" by (simp add: pq_open_def)
  from ne fm have tr: "bytes_truthy (map_of (file_meta f') ''huggingface'')"
    by (simp add: bytes_truthy_def)
  have m: "read_hf_metadata loads f' =
             \<lparr>source = SrcFile, json = j, raw_file = Some t, raw_schema = Some t\<rparr>"
    by (simp add: read_hf_metadata_file [OF tr] fm sm rb)
  let ?m = "\<lparr>source = SrcFile, json = j, raw_file = Some t, raw_schema = Some t\<rparr>"
  have ch: "choose_json loads (arg_prefer a) ?m = j"
    by (simp add: choose_json_def rb)
  have cv: "convert_list_to_sequence (choose_json loads (arg_prefer a) ?m) = Inr (Ret3 j 0 [])"
    unfolding ch by (rule convert_ret3_again [OF conv])
  have nw: "\<not> needs_write ?m t" by (simp add: needs_write_iff)
  have orn: "out_root a = None" by (simp add: out_root_def out)
  have "fix_parquet loads fr a i' p rel s =
          fix_rewrite loads fr a i' p rel ?m
            (s\<lparr>total_parquet := total_parquet s + 1, seen_parquet := seen_parquet s + 1\<rparr>)"
    using j by (simp add: fix_parquet_opened [OF lim o] m)
  also have "\<dots> = (Inr (), s\<lparr>total_parquet := total_parquet s + 1, seen_parquet := seen_parquet s + 1,
                       printed := printed s @ [OkNoChange p]\<rparr>)"
    by (simp add: fix_rewrite_ret3 [OF cv ser] nw orn)
  finally show ?thesis .
qed

lemma sample_convert: "convert_list_to_sequence (JObj sample_doc) = Inr (Ret3 (JObj sample_doc_done) 1 [u ''a''])"
  by code_simp

lemma sample_convert_done: "convert_list_to_sequence (JObj sample_doc_done) = Inr (Ret3 (JObj sample_doc_done) 0 [])"
  by code_simp


text \<open>
  The decision for a document with a feature map. In place (no \<open>--out\<close>), for a file whose
  chosen JSON the rewriter turns into \<open>j\<close> with serialisation \<open>t\<close>: a write is needed
  unless \<open>t\<close> is both the file-level and the schema-level blob. When it is both, the body
  of the loop prints "no change" and leaves counters and files as they are; otherwise,
  with \<open>--apply\<close>, what happens to the files is what the writer does, and without
  \<open>--apply\<close> nothing is written. So the run after a successful rewrite in place, provided
  the parser reads back what the serialiser wrote, finds the file consistent and is a
  no-op for it.
\<close>

lemma needs_write_decision:
  assumes out: "arg_out a = None"
      and conv: "convert_list_to_sequence (choose_json loads (arg_prefer a) m) = Inr (Ret3 j n ns)"
      and ser: "dumps_utf8 fr j = Inr t"
  shows "(needs_write m t \<longleftrightarrow> \<not> (raw_file m = Some t \<and> raw_schema m = Some t)) \<and>
     (raw_file m = Some t \<and> raw_schema m = Some t \<longrightarrow>
        fix_rewrite loads fr a i p rel m s = (Inr (), s\<lparr>printed := printed s @ [OkNoChange p]\<rparr>)) \<and>
     (\<not> (raw_file m = Some t \<and> raw_schema m = Some t) \<and> arg_apply a \<longrightarrow>
        fst (fix_rewrite loads fr a i p rel m s) = fst (write_with_hf_metadata fr i p None j (files s)) \<and>
        files (snd (fix_rewrite loads fr a i p rel m s)) =
          snd (write_with_hf_metadata fr i p None j (files s))) \<and>
     (\<not> arg_apply a \<longrightarrow> files (snd (fix_rewrite loads fr a i p rel m s)) = files s) \<and>
     (write_with_hf_metadata fr i p None j fs = (Inr (), fs') \<and>
      fs p = Some (Parquet srcf) \<and> map_of (schema_meta srcf) ''ARROW:schema'' = None \<and>
      loads t = Some j \<and> files s' = fs' \<and> \<not> read_fails i' \<and>
      \<not> (case arg_limit a of None \<Rightarrow> False | Some l \<Rightarrow> l \<le> seen_parquet s') \<longrightarrow>
        fix_parquet loads fr a i' p rel s' =
          (Inr (), s'\<lparr>total_parquet := total_parquet s' + 1, seen_parquet := seen_parquet s' + 1,
                       printed := printed s' @ [OkNoChange p]\<rparr>))"
proof -
  have orn: "out_root a = None" by (simp add: out_root_def out)
  note fr = fix_rewrite_ret3 [OF conv ser, of i p rel s]
  have a: "needs_write m t \<longleftrightarrow> \<not> (raw_file m = Some t \<and> raw_schema m = Some t)"
    by (rule needs_write_iff)
  have b: "raw_file m = Some t \<and> raw_schema m = Some t \<longrightarrow>
        fix_rewrite loads fr a i p rel m s = (Inr (), s\<lparr>printed := printed s @ [OkNoChange p]\<rparr>)"
    by (simp add: fr needs_write_iff orn)
  have c: "\<not> (raw_file m = Some t \<and> raw_schema m = Some t) \<and> arg_apply a \<longrightarrow>
        fst (fix_rewrite loads fr a i p rel m s) = fst (write_with_hf_metadata fr i p None j (files s)) \<and>
        files (snd (fix_rewrite loads fr a i p rel m s)) =
          snd (write_with_hf_metadata fr i p None j (files s))"
  proof (intro impI, elim conjE)
    assume n: "\<not> (raw_file m = Some t \<and> raw_schema m = Some t)" and ap: "arg_apply a"
    obtain r fs1 where w: "write_with_hf_metadata fr i p None j (files s) = (r, fs1)"
      by (cases "write_with_hf_metadata fr i p None j (files s)")
    from n have nw: "needs_write m t" by (simp add: needs_write_iff)
    show "fst (fix_rewrite loads fr a i p rel m s) = fst (write_with_hf_metadata fr i p None j (files s)) \<and>
        files (snd (fix_rewrite loads fr a i p rel m s)) =
          snd (write_with_hf_metadata fr i p None j (files s))"
      using nw ap by (cases r) (simp_all add: fr orn w Let_def)
  qed
  have d: "\<not> arg_apply a \<longrightarrow> files (snd (fix_rewrite loads fr a i p rel m s)) = files s"
    by (simp add: fr orn Let_def)
  have e: "write_with_hf_metadata fr i p None j fs = (Inr (), fs') \<and>
      fs p = Some (Parquet srcf) \<and> map_of (schema_meta srcf) ''ARROW:schema'' = None \<and>
      loads t = Some j \<and> files s' = fs' \<and> \<not> read_fails i' \<and>
      \<not> (case arg_limit a of None \<Rightarrow> False | Some l \<Rightarrow> l \<le> seen_parquet s') \<longrightarrow>
        fix_parquet loads fr a i' p rel s' =
          (Inr (), s'\<lparr>total_parquet := total_parquet s' + 1, seen_parquet := seen_parquet s' + 1,
                       printed := printed s' @ [OkNoChange p]\<rparr>)"
    using second_run_in_place [OF out conv ser, of i p fs fs' srcf loads s' i' rel] by blast
  from a b c d e show ?thesis by blast
qed

lemma fs_rewritten_done: "fs_rewritten = fs_with done_file"
  by (simp add: fs_rewritten_def sample_written_done fs_with_def)

lemma needs_write_decision_sample:
  "fix_rewrite sample_loads sample_repr args_in_place io_ok sample_path [''f.parquet''] done_meta
       (start (fs_with done_file))
     = (Inr (), (start (fs_with done_file))\<lparr>printed := [OkNoChange sample_path]\<rparr>) \<and>
   needs_write list_meta blob_sequence \<and>
   write_with_hf_metadata sample_repr io_ok sample_path None (JObj sample_doc_done) (fs_with list_file)
     = (Inr (), fs_with done_file) \<and>
   fix_parquet sample_loads sample_repr args_in_place io_ok sample_path [''f.parquet'']
       (start (fs_with done_file))
     = (Inr (), (start (fs_with done_file))
          \<lparr>total_parquet := 1, seen_parquet := 1, printed := [OkNoChange sample_path]\<rparr>)"
proof -
  have o: "arg_out args_in_place = None" by (simp add: args_in_place_def)
  have pa: "arg_prefer args_in_place = PreferAuto" by (simp add: args_in_place_def)
  have c1: "convert_list_to_sequence (choose_json sample_loads (arg_prefer args_in_place) done_meta)
     = Inr (Ret3 (JObj sample_doc_done) 0 [])"
    by (simp add: pa choose_json_def done_meta_def sample_convert_done)
  have c2: "convert_list_to_sequence (choose_json sample_loads (arg_prefer args_in_place) list_meta)
     = Inr (Ret3 (JObj sample_doc_done) 1 [u ''a''])"
    by (simp add: pa choose_json_def list_meta_def sample_convert)
  have w: "write_with_hf_metadata sample_repr io_ok sample_path None (JObj sample_doc_done) (fs_with list_file)
     = (Inr (), fs_with done_file)"
    unfolding fs_rewritten_done [symmetric] fs_rewritten_def by (rule sample_write_ok)
  have l: "sample_loads blob_sequence = Some (JObj sample_doc_done)"
    by (simp add: sample_loads_def blob_sequence_def blob_list_def)
  have ne: "blob_list \<noteq> blob_sequence" by (simp add: blob_sequence_def blob_list_def)
  have both: "raw_file done_meta = Some blob_sequence \<and> raw_schema done_meta = Some blob_sequence"
    by (simp add: done_meta_def)
  have nb: "\<not> (raw_file list_meta = Some blob_sequence \<and> raw_schema list_meta = Some blob_sequence)"
    using ne by (simp add: list_meta_def)
  have sp: "fs_with list_file sample_path = Some (Parquet list_file)" by (simp add: fs_with_def)
  have na: "map_of (schema_meta list_file) ''ARROW:schema'' = None" by (simp add: list_file_def)
  have st: "files (start (fs_with done_file)) = fs_with done_file" "\<not> read_fails io_ok"
    "\<not> (case arg_limit args_in_place of None \<Rightarrow> False
         | Some l \<Rightarrow> l \<le> seen_parquet (start (fs_with done_file)))"
    by (simp_all add: start_def io_ok_def args_in_place_def)
  note T1 = needs_write_decision [OF o c1 dumps_sample_doc_done,
      where i = io_ok and p = sample_path and rel = "[''f.parquet'']" and s = "start (fs_with done_file)"]
  note T2 = needs_write_decision [OF o c2 dumps_sample_doc_done,
      where i = io_ok and p = sample_path and rel = "[''f.parquet'']" and fs = "fs_with list_file"
        and fs' = "fs_with done_file" and s' = "start (fs_with done_file)" and i' = io_ok
        and srcf = list_file]
  from T1 both have r1: "fix_rewrite sample_loads sample_repr args_in_place io_ok sample_path [''f.parquet''] done_meta
       (start (fs_with done_file))
     = (Inr (), (start (fs_with done_file))\<lparr>printed := printed (start (fs_with done_file)) @ [OkNoChange sample_path]\<rparr>)"
    by blast
  then have r1': "fix_rewrite sample_loads sample_repr args_in_place io_ok sample_path [''f.parquet''] done_meta
       (start (fs_with done_file))
     = (Inr (), (start (fs_with done_file))\<lparr>printed := [OkNoChange sample_path]\<rparr>)"
    by (simp add: start_def)
  from T2 nb have r2: "needs_write list_meta blob_sequence" by blast
  from T2 w sp na l st have r3: "fix_parquet sample_loads sample_repr args_in_place io_ok sample_path [''f.parquet'']
       (start (fs_with done_file))
     = (Inr (), (start (fs_with done_file))
          \<lparr>total_parquet := total_parquet (start (fs_with done_file)) + 1,
           seen_parquet := seen_parquet (start (fs_with done_file)) + 1,
           printed := printed (start (fs_with done_file)) @ [OkNoChange sample_path]\<rparr>)"
    by blast
  then have r3': "fix_parquet sample_loads sample_repr args_in_place io_ok sample_path [''f.parquet'']
       (start (fs_with done_file))
     = (Inr (), (start (fs_with done_file))
          \<lparr>total_parquet := 1, seen_parquet := 1, printed := [OkNoChange sample_path]\<rparr>)"
    by (simp add: start_def)
  show ?thesis
    by (intro conjI) (fact r1' r2 w r3')+
qed

text \<open>
  Without a feature map the body of the loop never reaches the comparison: the call of
  the rewriter raises, or the pair it returns fails to unpack, and the exception ends
  the run with counters and files as they were.
\<close>

lemma fix_rewrite_without_features:
  assumes "\<not> (\<exists>kvs ikvs feats. choose_json loads (arg_prefer a) m = JObj kvs \<and>
             map_of kvs (u ''info'') = Some (JObj ikvs) \<and>
             map_of ikvs (u ''features'') = Some (JObj feats))"
  shows "fix_rewrite loads fr a i p rel m s = (Inl ValueError, s) \<or>
         fix_rewrite loads fr a i p rel m s = (Inl AttributeError, s)"
proof -
  let ?hf = "choose_json loads (arg_prefer a) m"
  from convert_cases [of ?hf] assms
  consider (pair) "convert_list_to_sequence ?hf = Inr (Ret2 ?hf 0)"
    | (err) "convert_list_to_sequence ?hf = Inl AttributeError"
    by blast
  then show ?thesis
  proof cases
    case pair
    then show ?thesis by (simp add: fix_rewrite_def)
  next
    case err
    then show ?thesis by (simp add: fix_rewrite_def)
  qed
qed

lemma plain_facts:
  "map_of (file_meta plain_file) ''huggingface'' = Some blob_plain"
  "map_of (schema_meta plain_file) ''huggingface'' = Some blob_plain"
  "sample_loads blob_plain = Some (JObj plain_doc)"
  "blob_plain \<noteq> []"
  by (simp_all add: plain_file_def sample_loads_def blob_plain_def blob_list_def blob_sequence_def)

lemma dumps_plain_doc: "dumps_utf8 sample_repr (JObj plain_doc) = Inr blob_plain"
  by code_simp

lemma convert_plain_doc: "convert_list_to_sequence (JObj plain_doc) = Inr (Ret2 (JObj plain_doc) 0)"
  by code_simp

lemma read_plain_file:
  "read_hf_metadata sample_loads plain_file =
     \<lparr>source = SrcFile, json = JObj plain_doc, raw_file = Some blob_plain,
      raw_schema = Some blob_plain\<rparr>"
proof -
  have t: "bytes_truthy (map_of (file_meta plain_file) ''huggingface'')"
    by (simp add: bytes_truthy_def plain_facts)
  show ?thesis
    by (simp add: read_hf_metadata_file [OF t] plain_facts)
qed

lemma plain_run:
  assumes a: "arg_root a = [''d'']" "arg_out a = None" "arg_limit a = None"
  shows "main sample_loads sample_repr a sample_walk (fs_with plain_file)
           = (Inl ValueError, (start (fs_with plain_file))\<lparr>total_parquet := 1, seen_parquet := 1\<rparr>)"
proof -
  let ?fs = "fs_with plain_file"
  let ?m = "\<lparr>source = SrcFile, json = JObj plain_doc, raw_file = Some blob_plain,
             raw_schema = Some blob_plain\<rparr>"
  have orn: "out_root a = None" by (simp add: out_root_def a)
  have e1: "fix_entry sample_loads sample_repr a ([''d''], True, io_ok) (start ?fs) = (Inr (), start ?fs)"
    by (simp add: fix_entry_def relative_to_def a orn)
  have o: "pq_open io_ok (files (start ?fs)) sample_path = Inr plain_file"
    by (simp add: pq_open_def start_def fs_with_def io_ok_def)
  have lim: "\<not> (case arg_limit a of None \<Rightarrow> False | Some l \<Rightarrow> l \<le> seen_parquet (start ?fs))"
    by (simp add: a)
  have ch: "choose_json sample_loads (arg_prefer a) ?m = JObj plain_doc"
    by (cases "arg_prefer a") (simp_all add: choose_json_def bytes_truthy_def plain_facts)
  have rw: "fix_rewrite sample_loads sample_repr a io_ok sample_path [''f.parquet''] ?m s
              = (Inl ValueError, s)" for s
    by (simp add: fix_rewrite_def ch convert_plain_doc)
  have p2: "fix_parquet sample_loads sample_repr a io_ok sample_path [''f.parquet''] (start ?fs)
              = (Inl ValueError, (start ?fs)\<lparr>total_parquet := 1, seen_parquet := 1\<rparr>)"
    by (subst fix_parquet_opened [OF lim o]) (simp add: read_plain_file rw start_def)
  have sfx: "has_parquet_suffix sample_path"
    by (simp add: has_parquet_suffix_def sample_path_def path_name_def)
  have rel: "relative_to sample_path (arg_root a) = Inr [''f.parquet'']"
    by (simp add: relative_to_def a sample_path_def)
  have e2: "fix_entry sample_loads sample_repr a (sample_path, False, io_ok) (start ?fs)
              = (Inl ValueError, (start ?fs)\<lparr>total_parquet := 1, seen_parquet := 1\<rparr>)"
    by (simp add: fix_entry_def rel sfx p2)
  have root: "?fs (arg_root a) \<noteq> None" by (simp add: a fs_with_def)
  show ?thesis
    using root by (simp add: main_def sample_walk_def e1 e2)
qed

text \<open>
  Claim C3. The claim fails on a file that is already consistent when its document has
  no feature map. \<open>plain_file\<close> holds \<open>{"a": 1}\<close> at the file level and at the schema
  level, and that is also what the serialiser makes of the parsed document, so nothing
  would need to be written. Yet the run \<open>--root /d\<close> in place, with \<open>--apply\<close> or
  without, ends with \<open>ValueError\<close> at this file: the rewriter returns a pair, the
  unpacking into three names raises, the comparison is never made and no line is printed.
\<close>

theorem consistent_file_without_features_raises:
  "map_of (file_meta plain_file) ''huggingface'' = Some blob_plain \<and>
   map_of (schema_meta plain_file) ''huggingface'' = Some blob_plain \<and>
   reads_as_written io_ok plain_file \<and>
   sample_loads blob_plain = Some (JObj plain_doc) \<and>
   dumps_utf8 sample_repr (JObj plain_doc) = Inr blob_plain \<and>
   \<not> needs_write (read_hf_metadata sample_loads plain_file) blob_plain \<and>
   convert_list_to_sequence (JObj plain_doc) = Inr (Ret2 (JObj plain_doc) 0) \<and>
   main sample_loads sample_repr args_in_place sample_walk (fs_with plain_file)
     = (Inl ValueError, (start (fs_with plain_file))\<lparr>total_parquet := 1, seen_parquet := 1\<rparr>) \<and>
   main sample_loads sample_repr (args_in_place\<lparr>arg_apply := False\<rparr>) sample_walk (fs_with plain_file)
     = (Inl ValueError, (start (fs_with plain_file))\<lparr>total_parquet := 1, seen_parquet := 1\<rparr>) \<and>
   files ((start (fs_with plain_file))\<lparr>total_parquet := 1, seen_parquet := 1\<rparr>) = fs_with plain_file \<and>
   printed ((start (fs_with plain_file))\<lparr>total_parquet := 1, seen_parquet := 1\<rparr>) = []"
proof -
  have w: "reads_as_written io_ok plain_file"
    by (simp add: reads_as_written_def plain_file_def io_ok_def sample_unpack_def
          packed_plain_def packed_list_def packed_sequence_def)
  have n: "\<not> needs_write (read_hf_metadata sample_loads plain_file) blob_plain"
    by (simp add: read_plain_file needs_write_iff)
  have r1: "main sample_loads sample_repr args_in_place sample_walk (fs_with plain_file)
     = (Inl ValueError, (start (fs_with plain_file))\<lparr>total_parquet := 1, seen_parquet := 1\<rparr>)"
    by (rule plain_run) (simp_all add: args_in_place_def)
  have r2: "main sample_loads sample_repr (args_in_place\<lparr>arg_apply := False\<rparr>) sample_walk (fs_with plain_file)
     = (Inl ValueError, (start (fs_with plain_file))\<lparr>total_parquet := 1, seen_parquet := 1\<rparr>)"
    by (rule plain_run) (simp_all add: args_in_place_def)
  have f: "files ((start (fs_with plain_file))\<lparr>total_parquet := 1, seen_parquet := 1\<rparr>) = fs_with plain_file"
    "printed ((start (fs_with plain_file))\<lparr>total_parquet := 1, seen_parquet := 1\<rparr>) = []"
    by (simp_all add: start_def)
  show ?thesis
    by (intro conjI) (fact plain_facts(1-3) w dumps_plain_doc n convert_plain_doc r1 r2 f)+
qed

section \<open>Mirror mode\<close>

text \<open>Which paths an operation can change.\<close>

lemma mkdir_chain_touches:
  "mkdir_chain b ps fs = (r, fs') \<Longrightarrow> fs' p \<noteq> fs p \<Longrightarrow> p \<in> set ps"
proof (induction ps arbitrary: b fs)
  case Nil
  then show ?case by simp
next
  case (Cons q qs)
  show ?case
  proof (cases "fs q")
    case None
    show ?thesis
    proof (cases b)
      case bn: None
      with None Cons.prems(1) have "mkdir_chain None qs (fs(q \<mapsto> Dir)) = (r, fs')" by simp
      from Cons.IH [OF this] Cons.prems(2) show ?thesis by (cases "p = q") auto
    next
      case (Some n)
      show ?thesis
      proof (cases n)
        case 0
        with None Some Cons.prems show ?thesis by simp
      next
        case (Suc k)
        with None Some Cons.prems(1) have "mkdir_chain (Some k) qs (fs(q \<mapsto> Dir)) = (r, fs')" by simp
        from Cons.IH [OF this] Cons.prems(2) show ?thesis by (cases "p = q") auto
      qed
    qed
  next
    case (Some ob)
    show ?thesis
    proof (cases ob)
      case Dir
      with Some Cons.prems(1) have "mkdir_chain b qs fs = (r, fs')" by simp
      from Cons.IH [OF this Cons.prems(2)] show ?thesis by simp
    next
      case (Parquet x)
      with Some Cons.prems show ?thesis by simp
    next
      case (FooterOnly m x)
      with Some Cons.prems show ?thesis by simp
    next
      case (Blob x)
      with Some Cons.prems show ?thesis by simp
    qed
  qed
qed

lemma mkdir_parents_touches:
  "mkdir_parents i d fs = (r, fs') \<Longrightarrow> fs' p \<noteq> fs p \<Longrightarrow> prefix p d"
  unfolding mkdir_parents_def by (drule (1) mkdir_chain_touches) (simp add: in_set_prefixes)

lemma pq_write_table_touches:
  "pq_write_table i t d fs = (r, fs') \<Longrightarrow> fs' p \<noteq> fs p \<Longrightarrow> p = d"
  by (auto simp: pq_write_table_def split: if_splits wfault.splits)

lemma copy2_touches:
  assumes "copy2 i src dst fs = (r, fs')" and "fs' p \<noteq> fs p"
  shows "prefix dst p"
proof -
  let ?target = "if fs dst = Some Dir then path_join dst (path_name src) else dst"
  have t: "prefix dst ?target" by (simp add: path_join_def)
  have "fs' = fs \<or> (\<exists>x. fs' = fs(?target \<mapsto> x))"
  proof (cases "fs src")
    case None
    with assms(1) show ?thesis by (simp add: copy2_def Let_def)
  next
    case (Some ob)
    show ?thesis
    proof (cases "ob = Dir \<or> ?target = src \<or> fs ?target = Some Dir")
      case True
      with Some assms(1) show ?thesis
        by (cases ob) (auto simp: copy2_def Let_def split: if_splits)
    next
      case False
      with Some assms(1) show ?thesis
        by (cases ob; cases "copy_fault i") (auto simp: copy2_def Let_def split: if_splits)
    qed
  qed
  with assms(2) have "p = ?target" by (auto split: if_splits)
  with t show ?thesis by simp
qed

lemma prefix_parent: "prefix p (parent d) \<Longrightarrow> prefix p d"
  unfolding parent_def by (rule prefix_order.trans [OF _ prefixeq_butlast])

lemma on_line_below: "prefix p (ot @ rel) \<Longrightarrow> on_line ot p"
  by (auto simp: on_line_def prefix_append)

lemma on_line_above: "prefix (ot @ rel) p \<Longrightarrow> on_line ot p"
  unfolding on_line_def by (rule disjI1) (rule append_prefixD)

lemma mirror_copy_touches:
  assumes "mirror_copy i src (ot @ rel) fs = (r, fs')" and "fs' p \<noteq> fs p"
  shows "on_line ot p"
proof -
  obtain r1 fs1 where m: "mkdir_parents i (parent (ot @ rel)) fs = (r1, fs1)"
    by (cases "mkdir_parents i (parent (ot @ rel)) fs")
  show ?thesis
  proof (cases "fs1 p = fs p")
    case True
    with assms(2) have d: "fs' p \<noteq> fs1 p" by simp
    from assms(1) m obtain x where "copy2 i src (ot @ rel) fs1 = (r, fs')"
      using d by (cases r1) (auto simp: mirror_copy_def)
    from copy2_touches [OF this d] show ?thesis by (rule on_line_above)
  next
    case False
    with mkdir_parents_touches [OF m] have "prefix p (parent (ot @ rel))" by blast
    then show ?thesis by (rule on_line_below [OF prefix_parent])
  qed
qed

lemma write_mirror_touches:
  assumes "ot @ rel \<noteq> src"
      and "write_with_hf_metadata fr i src (Some (ot @ rel)) j fs = (r, fs')"
      and "fs' p \<noteq> fs p"
  shows "on_line ot p"
proof -
  from assms(2,3) obtain t blob where
    w: "(case mkdir_parents i (parent (ot @ rel)) fs of
           (Inl e, fs1) \<Rightarrow> (Inl e, fs1)
         | (Inr x, fs1) \<Rightarrow> pq_write_table i t (ot @ rel) fs1) = (r, fs')"
    using assms(1)
    by (auto simp: write_with_hf_metadata_def Let_def split: sum.splits if_splits)
  obtain r1 fs1 where m: "mkdir_parents i (parent (ot @ rel)) fs = (r1, fs1)"
    by (cases "mkdir_parents i (parent (ot @ rel)) fs")
  show ?thesis
  proof (cases "fs1 p = fs p")
    case True
    with assms(3) have d: "fs' p \<noteq> fs1 p" by simp
    from w m d have "pq_write_table i t (ot @ rel) fs1 = (r, fs')"
      by (cases r1) auto
    from pq_write_table_touches [OF this d] show ?thesis
      by (simp add: on_line_def)
  next
    case False
    with mkdir_parents_touches [OF m] have "prefix p (parent (ot @ rel))" by blast
    then show ?thesis by (rule on_line_below [OF prefix_parent])
  qed
qed

lemma cv_write_touches:
  assumes "arg_out a = Some ot"
      and "cv_write fr a i src rel meta j fs = (r, fs')"
      and "fs' p \<noteq> fs p"
  shows "on_line ot p"
proof -
  from assms obtain blob where b: "dumps_utf8 fr j = Inr blob"
    by (auto simp: cv_write_def split: sum.splits)
  obtain r1 fs1 where m: "mkdir_parents i (parent (ot @ rel)) fs = (r1, fs1)"
    by (cases "mkdir_parents i (parent (ot @ rel)) fs")
  show ?thesis
  proof (cases "fs1 p = fs p")
    case True
    with assms(3) have d: "fs' p \<noteq> fs1 p" by simp
    from assms(1,2) b m d obtain t where "pq_write_table i t (ot @ rel) fs1 = (r, fs')"
      by (cases r1) (auto simp: cv_write_def Let_def split: sum.splits)
    from pq_write_table_touches [OF this d] show ?thesis
      by (simp add: on_line_def)
  next
    case False
    with mkdir_parents_touches [OF m] have "prefix p (parent (ot @ rel))" by blast
    then show ?thesis by (rule on_line_below [OF prefix_parent])
  qed
qed

lemma fix_no_meta_touches:
  assumes "out_root a = Some ot"
      and "fix_no_meta a i p rel s = (r, s')"
      and "files s' q \<noteq> files s q"
  shows "on_line ot q"
proof -
  obtain r1 fs1 where m: "mirror_copy i p (ot @ rel) (files s) = (r1, fs1)"
    by (cases "mirror_copy i p (ot @ rel) (files s)")
  from assms m have "fs1 q \<noteq> files s q"
    by (cases "arg_apply a"; cases r1) (auto simp: fix_no_meta_def Let_def)
  from mirror_copy_touches [OF m this] show ?thesis .
qed

lemma cv_no_meta_touches:
  assumes "arg_out a = Some ot"
      and "cv_no_meta a i p rel s = (r, s')"
      and "files s' q \<noteq> files s q"
  shows "on_line ot q"
proof -
  obtain r1 fs1 where m: "mirror_copy i p (ot @ rel) (files s) = (r1, fs1)"
    by (cases "mirror_copy i p (ot @ rel) (files s)")
  from assms m have "fs1 q \<noteq> files s q"
    by (cases "arg_apply a"; cases r1) (auto simp: cv_no_meta_def Let_def)
  from mirror_copy_touches [OF m this] show ?thesis .
qed

lemma fix_rewrite_touches:
  assumes "out_root a = Some ot" and "ot @ rel \<noteq> p"
      and "fix_rewrite loads fr a i p rel m s = (r, s')"
      and "files s' q \<noteq> files s q"
  shows "on_line ot q"
proof (cases "convert_list_to_sequence (choose_json loads (arg_prefer a) m)")
  case (Inl e)
  with assms(3,4) show ?thesis by (simp add: fix_rewrite_def)
next
  case (Inr ret)
  show ?thesis
  proof (cases ret)
    case (Ret2 j n)
    with Inr assms(3,4) show ?thesis by (simp add: fix_rewrite_def)
  next
    case (Ret3 j n ns)
    show ?thesis
    proof (cases "dumps_utf8 fr j")
      case e: (Inl e)
      with Inr Ret3 assms(3,4) show ?thesis by (simp add: fix_rewrite_def)
    next
      case t: (Inr t)
      note f = fix_rewrite_ret3 [OF Inr [unfolded Ret3] t, of i p rel s]
      let ?s = "s\<lparr>affected_parquet := affected_parquet s + (if needs_write m t then 1 else 0),
                    changed_entries := changed_entries s + n\<rparr>"
      obtain r1 fs1 where w: "write_with_hf_metadata fr i p (Some (ot @ rel)) j (files s) = (r1, fs1)"
        by (cases "write_with_hf_metadata fr i p (Some (ot @ rel)) j (files s)")
      from assms(1,3,4) w have "fs1 q \<noteq> files s q"
        by (cases "arg_apply a"; cases r1) (auto simp: f Let_def)
      from write_mirror_touches [OF assms(2) w this] show ?thesis .
    qed
  qed
qed

lemma fix_parquet_touches:
  assumes o: "out_root a = Some ot" and ne: "ot @ rel \<noteq> p"
      and run: "fix_parquet loads fr a i p rel s = (r, s')"
      and ch: "files s' q \<noteq> files s q"
  shows "on_line ot q"
proof (cases "case arg_limit a of None \<Rightarrow> False | Some l \<Rightarrow> l \<le> seen_parquet s")
  case True
  with run ch show ?thesis by (cases "arg_limit a") (auto simp: fix_parquet_def Let_def)
next
  case False
  let ?s = "s\<lparr>total_parquet := total_parquet s + 1, seen_parquet := seen_parquet s + 1\<rparr>"
  have fs: "files ?s = files s" by simp
  show ?thesis
  proof (cases "pq_open i (files s) p")
    case (Inl e)
    with False run ch show ?thesis by (cases "arg_limit a") (auto simp: fix_parquet_def Let_def)
  next
    case (Inr f)
    note op = fix_parquet_opened [OF False Inr, of loads fr rel]
    show ?thesis
    proof (cases "source (read_hf_metadata loads f) = SrcNone \<or> json (read_hf_metadata loads f) = JNull")
      case True
      with run op have "fix_no_meta a i p rel ?s = (r, s')" by (simp add: Let_def)
      from fix_no_meta_touches [OF o this] ch show ?thesis by simp
    next
      case nz: False
      with run op have "fix_rewrite loads fr a i p rel (read_hf_metadata loads f) ?s = (r, s')"
        by (simp add: Let_def)
      from fix_rewrite_touches [OF o ne this] ch show ?thesis by simp
    qed
  qed
qed

lemma cv_parquet_touches:
  assumes o: "arg_out a = Some ot"
      and run: "cv_parquet loads fr a i p rel s = (r, s')"
      and ch: "files s' q \<noteq> files s q"
  shows "on_line ot q"
proof (cases "case arg_limit a of None \<Rightarrow> False | Some l \<Rightarrow> l \<le> seen_parquet s")
  case True
  with run ch show ?thesis by (cases "arg_limit a") (auto simp: cv_parquet_def Let_def)
next
  case False
  let ?s = "s\<lparr>seen_parquet := seen_parquet s + 1, total_parquet := total_parquet s + 1\<rparr>"
  show ?thesis
  proof (cases "pq_read_metadata i (files s) p")
    case (Inl e)
    with False run ch show ?thesis by (cases "arg_limit a") (auto simp: cv_parquet_def Let_def)
  next
    case (Inr f)
    obtain hf meta where l: "load_hf_metadata loads f = (hf, meta)"
      by (cases "load_hf_metadata loads f")
    show ?thesis
    proof (cases "hf = JNull")
      case True
      with False Inr l run have "cv_no_meta a i p rel ?s = (r, s')"
        by (cases "arg_limit a") (simp_all add: cv_parquet_def Let_def)
      from cv_no_meta_touches [OF o this] ch show ?thesis by simp
    next
      case nz: False
      from False have lim: "(case arg_limit a of None \<Rightarrow> False | Some l \<Rightarrow> l \<le> seen_parquet s) = False"
        by simp
      show ?thesis
      proof (cases "convert_list_to_sequence_cv hf")
        case e: (Inl e)
        with run ch Inr l nz lim show ?thesis by (auto simp: cv_parquet_def Let_def)
      next
        case c: (Inr res)
        obtain j n where res: "res = (j, n)" by (cases res)
        show ?thesis
        proof (cases "n = 0")
          case True
          obtain r1 fs1 where m: "mirror_copy i p (ot @ rel) (files s) = (r1, fs1)"
            by (cases "mirror_copy i p (ot @ rel) (files s)")
          from run ch Inr l nz lim c res True o m have "fs1 q \<noteq> files s q"
            by (cases "arg_apply a"; cases r1) (auto simp: cv_parquet_def Let_def)
          from mirror_copy_touches [OF m this] show ?thesis .
        next
          case nn: False
          obtain r1 fs1 where w: "cv_write fr a i p rel meta j (files s) = (r1, fs1)"
            by (cases "cv_write fr a i p rel meta j (files s)")
          from run ch Inr l nz lim c res nn o w have "fs1 q \<noteq> files s q"
            by (cases "arg_apply a"; cases r1) (auto simp: cv_parquet_def Let_def)
          from cv_write_touches [OF o w this] show ?thesis .
        qed
      qed
    qed
  qed
qed

lemma relative_to_Inr: "relative_to p r = Inr rel \<Longrightarrow> p = r @ rel"
  by (auto simp: relative_to_def prefix_def split: if_splits)

lemma fix_entry_touches:
  assumes o: "out_root a = Some ot" and ne: "ot \<noteq> arg_root a"
      and run: "fix_entry loads fr a e s = (r, s')"
      and ch: "files s' q \<noteq> files s q"
  shows "on_line ot q"
proof -
  obtain p is_dir i where e: "e = (p, is_dir, i)" by (cases e)
  show ?thesis
  proof (cases "relative_to p (arg_root a)")
    case (Inl x)
    with run ch e show ?thesis by (simp add: fix_entry_def)
  next
    case (Inr rel)
    from relative_to_Inr [OF Inr] ne have pne: "ot @ rel \<noteq> p" by simp
    consider (dir) is_dir | (other) "\<not> is_dir" "\<not> has_parquet_suffix p"
      | (pq) "\<not> is_dir" "has_parquet_suffix p" by blast
    then show ?thesis
    proof cases
      case dir
      obtain r1 fs1 where m: "mkdir_parents i (ot @ rel) (files s) = (r1, fs1)"
        by (cases "mkdir_parents i (ot @ rel) (files s)")
      from run ch e Inr dir o m have "fs1 q \<noteq> files s q"
        by (cases "arg_apply a"; cases r1) (auto simp: fix_entry_def Let_def)
      from mkdir_parents_touches [OF m this] show ?thesis by (rule on_line_below)
    next
      case other
      obtain r1 fs1 where m: "mirror_copy i p (ot @ rel) (files s) = (r1, fs1)"
        by (cases "mirror_copy i p (ot @ rel) (files s)")
      from run ch e Inr other o m have "fs1 q \<noteq> files s q"
        by (cases "arg_apply a"; cases r1) (auto simp: fix_entry_def Let_def)
      from mirror_copy_touches [OF m this] show ?thesis .
    next
      case pq
      with run e Inr have "fix_parquet loads fr a i p rel s = (r, s')"
        by (simp add: fix_entry_def)
      from fix_parquet_touches [OF o pne this ch] show ?thesis .
    qed
  qed
qed

lemma cv_entry_touches:
  assumes o: "arg_out a = Some ot"
      and run: "cv_entry loads fr a e s = (r, s')"
      and ch: "files s' q \<noteq> files s q"
  shows "on_line ot q"
proof -
  obtain p is_dir i where e: "e = (p, is_dir, i)" by (cases e)
  show ?thesis
  proof (cases "relative_to p (arg_root a)")
    case (Inl x)
    with run ch e show ?thesis by (simp add: cv_entry_def)
  next
    case (Inr rel)
    consider (dir) is_dir | (other) "\<not> is_dir" "\<not> has_parquet_suffix p"
      | (pq) "\<not> is_dir" "has_parquet_suffix p" by blast
    then show ?thesis
    proof cases
      case dir
      obtain r1 fs1 where m: "mkdir_parents i (ot @ rel) (files s) = (r1, fs1)"
        by (cases "mkdir_parents i (ot @ rel) (files s)")
      from run ch e Inr dir o m have "fs1 q \<noteq> files s q"
        by (cases "arg_apply a"; cases r1) (auto simp: cv_entry_def Let_def)
      from mkdir_parents_touches [OF m this] show ?thesis by (rule on_line_below)
    next
      case other
      obtain r1 fs1 where m: "mirror_copy i p (ot @ rel) (files s) = (r1, fs1)"
        by (cases "mirror_copy i p (ot @ rel) (files s)")
      from run ch e Inr other o m have "fs1 q \<noteq> files s q"
        by (cases "arg_apply a"; cases r1) (auto simp: cv_entry_def Let_def)
      from mirror_copy_touches [OF m this] show ?thesis .
    next
      case pq
      with run e Inr have "cv_parquet loads fr a i p rel s = (r, s')"
        by (simp add: cv_entry_def)
      from cv_parquet_touches [OF o this ch] show ?thesis .
    qed
  qed
qed

lemma fix_loop_touches:
  assumes o: "out_root a = Some ot" and ne: "ot \<noteq> arg_root a"
  shows "fix_loop loads fr a es s = (r, s') \<Longrightarrow> files s' q \<noteq> files s q \<Longrightarrow> on_line ot q"
proof (induction es arbitrary: s)
  case Nil
  then show ?case by simp
next
  case (Cons e es)
  obtain r1 s1 where st: "fix_entry loads fr a e s = (r1, s1)"
    by (cases "fix_entry loads fr a e s")
  show ?case
  proof (cases "files s1 q = files s q")
    case True
    with Cons.prems(2) have d: "files s' q \<noteq> files s1 q" by simp
    from Cons.prems(1) st d have "fix_loop loads fr a es s1 = (r, s')"
      by (cases r1) auto
    from Cons.IH [OF this d] show ?thesis .
  next
    case False
    from fix_entry_touches [OF o ne st False] show ?thesis .
  qed
qed

lemma cv_loop_touches:
  assumes o: "arg_out a = Some ot"
  shows "cv_loop loads fr a es s = (r, s') \<Longrightarrow> files s' q \<noteq> files s q \<Longrightarrow> on_line ot q"
proof (induction es arbitrary: s)
  case Nil
  then show ?case by simp
next
  case (Cons e es)
  obtain r1 s1 where st: "cv_entry loads fr a e s = (r1, s1)"
    by (cases "cv_entry loads fr a e s")
  show ?case
  proof (cases "files s1 q = files s q")
    case True
    with Cons.prems(2) have d: "files s' q \<noteq> files s1 q" by simp
    from Cons.prems(1) st d have "cv_loop loads fr a es s1 = (r, s')"
      by (cases r1) auto
    from Cons.IH [OF this d] show ?thesis .
  next
    case False
    from cv_entry_touches [OF o st False] show ?thesis .
  qed
qed

lemma separate_off_line: "separate r ot \<Longrightarrow> on_line ot p \<Longrightarrow> \<not> prefix r p"
  unfolding separate_def on_line_def
  using prefix_same_cases prefix_order.trans by blast

lemma read_list_file: "read_hf_metadata sample_loads list_file = list_meta"
  by (simp add: read_hf_metadata_def list_file_def list_meta_def bytes_truthy_def sample_loads_def
        blob_list_def Let_def)

lemma nested_run:
  "fst (main sample_loads sample_repr args_nested sample_walk (fs_with list_file)) = Inr () \<and>
   files (snd (main sample_loads sample_repr args_nested sample_walk (fs_with list_file)))
       [''d'', ''o'', ''d'', ''f.parquet''] =
     Some (written_file io_ok \<lparr>tmeta = [(''huggingface'', blob_sequence)], tdata = ''rows''\<rparr>)"
proof -
  let ?fs0 = "fs_with list_file"
  let ?fs1 = "?fs0([''d'', ''o''] \<mapsto> Dir, [''d'', ''o'', ''d''] \<mapsto> Dir)"
  let ?dest = "[''d'', ''o'', ''d'', ''f.parquet'']"
  let ?w = "written_file io_ok \<lparr>tmeta = [(''huggingface'', blob_sequence)], tdata = ''rows''\<rparr>"
  let ?s1 = "(start ?fs0)\<lparr>files := ?fs1\<rparr>"
  have a: "arg_root args_nested = [''d'']" "arg_apply args_nested" "arg_limit args_nested = None"
    "arg_prefer args_nested = PreferAuto" "out_root args_nested = Some [''d'', ''o'', ''d'']"
    by (simp_all add: args_nested_def args_in_place_def out_root_def path_join_def path_name_def)
  have b: "mkdir_budget io_ok = None" "\<not> read_fails io_ok" "write_fault io_ok = WriteOk"
    by (simp_all add: io_ok_def)
  have m1: "mkdir_parents io_ok [''d'', ''o'', ''d''] ?fs0 = (Inr (), ?fs1)"
    by (simp add: mkdir_parents_def b fs_with_def sample_path_def)
  have m2: "mkdir_parents io_ok [''d'', ''o'', ''d''] ?fs1 = (Inr (), ?fs1)"
    by (simp add: mkdir_parents_def b fs_with_def sample_path_def)
  have e1: "fix_entry sample_loads sample_repr args_nested ([''d''], True, io_ok) (start ?fs0)
              = (Inr (), ?s1)"
    by (simp add: fix_entry_def relative_to_def a m1 start_def)
  have rt: "pq_read_table io_ok ?fs1 sample_path
              = Inr \<lparr>tmeta = [(''huggingface'', blob_list)], tdata = ''rows''\<rparr>"
    by (simp add: pq_read_table_def pq_open_def b fs_with_def sample_path_def list_file_def)
  have pw: "pq_write_table io_ok t ?dest ?fs1 = (Inr (), ?fs1(?dest \<mapsto> written_file io_ok t))" for t
    by (simp add: pq_write_table_def b fs_with_def sample_path_def)
  have dne: "?dest \<noteq> sample_path" by (simp add: sample_path_def)
  have pd: "parent ?dest = [''d'', ''o'', ''d'']" by (simp add: parent_def)
  have w: "write_with_hf_metadata sample_repr io_ok sample_path (Some ?dest) (JObj sample_doc_done) ?fs1
             = (Inr (), ?fs1(?dest \<mapsto> ?w))"
    by (simp add: write_with_hf_metadata_def rt dumps_sample_doc_done dne pd m2 pw)
  have o: "pq_open io_ok (files ?s1) sample_path = Inr list_file"
    by (simp add: pq_open_def b fs_with_def sample_path_def)
  have lim: "\<not> (case arg_limit args_nested of None \<Rightarrow> False | Some l \<Rightarrow> l \<le> seen_parquet ?s1)"
    by (simp add: a)
  have cv: "convert_list_to_sequence (choose_json sample_loads (arg_prefer args_nested) list_meta)
              = Inr (Ret3 (JObj sample_doc_done) 1 [u ''a''])"
    by (simp add: a choose_json_def list_meta_def sample_convert)
  have nw: "needs_write list_meta blob_sequence"
    by (simp add: needs_write_iff list_meta_def blob_list_def blob_sequence_def)
  have lm: "source list_meta \<noteq> SrcNone" "json list_meta \<noteq> JNull"
    by (simp_all add: list_meta_def)
  have fsz: "files ?s1 = ?fs1" by simp
  have p2: "fix_parquet sample_loads sample_repr args_nested io_ok sample_path [''f.parquet''] ?s1
              = fix_rewrite sample_loads sample_repr args_nested io_ok sample_path [''f.parquet'']
                  list_meta (?s1\<lparr>total_parquet := total_parquet ?s1 + 1,
                                 seen_parquet := seen_parquet ?s1 + 1\<rparr>)"
    by (simp only: fix_parquet_opened [OF lim o] read_list_file Let_def lm if_False simp_thms)
  have r2: "fst (fix_parquet sample_loads sample_repr args_nested io_ok sample_path [''f.parquet''] ?s1) = Inr () \<and>
            files (snd (fix_parquet sample_loads sample_repr args_nested io_ok sample_path [''f.parquet''] ?s1))
              = ?fs1(?dest \<mapsto> ?w)"
    unfolding p2 fix_rewrite_ret3 [OF cv dumps_sample_doc_done]
    by (simp add: nw a w Let_def)
  have sfx: "has_parquet_suffix sample_path"
    by (simp add: has_parquet_suffix_def sample_path_def path_name_def)
  have rel: "relative_to sample_path (arg_root args_nested) = Inr [''f.parquet'']"
    by (simp add: relative_to_def a sample_path_def)
  have e2: "fix_entry sample_loads sample_repr args_nested (sample_path, False, io_ok) ?s1
              = fix_parquet sample_loads sample_repr args_nested io_ok sample_path [''f.parquet''] ?s1"
    by (simp add: fix_entry_def rel sfx)
  have root: "?fs0 (arg_root args_nested) \<noteq> None" by (simp add: a fs_with_def)
  obtain r s2 where f2: "fix_parquet sample_loads sample_repr args_nested io_ok sample_path [''f.parquet''] ?s1 = (r, s2)"
    by (cases "fix_parquet sample_loads sample_repr args_nested io_ok sample_path [''f.parquet''] ?s1")
  with r2 have r: "r = Inr ()" and s2: "files s2 = ?fs1(?dest \<mapsto> ?w)" by simp_all
  have "main sample_loads sample_repr args_nested sample_walk ?fs0 = (Inr (), s2)"
    using root by (simp add: main_def sample_walk_def e1 e2 f2 r)
  with s2 show ?thesis by simp
qed

text \<open>
  An output root that differs from the source root is not enough: with
  \<open>--root /d --out /d/o --apply\<close> the output tree \<open>/d/o/d\<close> lies inside the source
  tree, and the run creates the rewritten table \<open>/d/o/d/f.parquet\<close> under the source
  root.
\<close>

theorem nested_mirror_writes_into_source_tree:
  "arg_root args_nested = [''d''] \<and>
   arg_out args_nested = Some [''d'', ''o''] \<and>
   arg_apply args_nested \<and>
   out_root args_nested = Some [''d'', ''o'', ''d''] \<and>
   prefix (arg_root args_nested) [''d'', ''o'', ''d'', ''f.parquet''] \<and>
   fs_with list_file [''d'', ''o'', ''d'', ''f.parquet''] = None \<and>
   fst (main sample_loads sample_repr args_nested sample_walk (fs_with list_file)) = Inr () \<and>
   files (snd (main sample_loads sample_repr args_nested sample_walk (fs_with list_file)))
       [''d'', ''o'', ''d'', ''f.parquet''] =
     Some (written_file io_ok \<lparr>tmeta = [(''huggingface'', blob_sequence)], tdata = ''rows''\<rparr>)"
proof -
  have a: "arg_root args_nested = [''d'']" "arg_out args_nested = Some [''d'', ''o'']"
    "arg_apply args_nested" "out_root args_nested = Some [''d'', ''o'', ''d'']"
    by (simp_all add: args_nested_def args_in_place_def out_root_def path_join_def path_name_def)
  have p: "prefix (arg_root args_nested) [''d'', ''o'', ''d'', ''f.parquet'']"
    by (simp add: a)
  have f: "fs_with list_file [''d'', ''o'', ''d'', ''f.parquet''] = None"
    by (simp add: fs_with_def sample_path_def)
  show ?thesis
    by (intro conjI) (fact a p f nested_run [THEN conjunct1] nested_run [THEN conjunct2])+
qed


text \<open>
  Claim C9, as the code has it. With \<open>--out\<close> given and the output tree separate from the
  source tree (neither root inside the other; the output tree is \<open>out/name-of-root\<close> for
  \<open>fix_parquet_hf_metadata.py\<close> and \<open>out\<close> for
  \<open>convert_parquet_hf_list_to_sequence.py\<close>), whatever the walk yields and whichever
  operations fail, no path under the source root is created, changed or removed: every
  path the run changes lies in the output tree or is an ancestor directory of its root.
\<close>

theorem mirror_run_leaves_source_tree:
  assumes out: "arg_out a = Some ob"
  shows "(separate (arg_root a) (path_join ob (path_name (arg_root a))) \<longrightarrow>
            (\<forall>q. prefix (arg_root a) q \<longrightarrow> files (snd (main loads fr a walk fs)) q = fs q) \<and>
            (\<forall>q. files (snd (main loads fr a walk fs)) q \<noteq> fs q \<longrightarrow>
                 on_line (path_join ob (path_name (arg_root a))) q)) \<and>
         (separate (arg_root a) ob \<longrightarrow>
            (\<forall>q. prefix (arg_root a) q \<longrightarrow> files (snd (main_cv loads fr a walk fs)) q = fs q) \<and>
            (\<forall>q. files (snd (main_cv loads fr a walk fs)) q \<noteq> fs q \<longrightarrow> on_line ob q))"
proof -
  let ?ot = "path_join ob (path_name (arg_root a))"
  have o: "out_root a = Some ?ot" by (simp add: out_root_def out)
  have st: "files (start fs) = fs" by (simp add: start_def)
  have f: "on_line ?ot q" if sep: "separate (arg_root a) ?ot"
    and ch: "files (snd (main loads fr a walk fs)) q \<noteq> fs q" for q
  proof -
    from sep have ne: "?ot \<noteq> arg_root a" by (auto simp: separate_def)
    obtain r s' where run: "fix_loop loads fr a walk (start fs) = (r, s')"
      by (cases "fix_loop loads fr a walk (start fs)")
    from ch run st have "files s' q \<noteq> files (start fs) q"
      by (auto simp: main_def split: if_splits)
    from fix_loop_touches [OF o ne run this] show ?thesis .
  qed
  have c: "on_line ob q" if ch: "files (snd (main_cv loads fr a walk fs)) q \<noteq> fs q" for q
  proof -
    obtain r s' where run: "cv_loop loads fr a walk (start fs) = (r, s')"
      by (cases "cv_loop loads fr a walk (start fs)")
    from ch run st have "files s' q \<noteq> files (start fs) q"
      by (auto simp: main_cv_def split: if_splits)
    from cv_loop_touches [OF out run this] show ?thesis .
  qed
  show ?thesis
    using f c separate_off_line by blast
qed

theorem mirror_run_leaves_source_tree_witness:
  "arg_out args_mirror = Some [''m''] \<and>
   separate (arg_root args_mirror) (path_join [''m''] (path_name (arg_root args_mirror))) \<and>
   separate (arg_root args_mirror) [''m''] \<and>
   prefix (arg_root args_mirror) sample_path \<and>
   files (snd (main sample_loads sample_repr args_mirror sample_walk (fs_with list_file))) sample_path
     = Some (Parquet list_file) \<and>
   files (snd (main_cv sample_loads sample_repr args_mirror sample_walk (fs_with list_file))) sample_path
     = Some (Parquet list_file)"
proof -
  have o: "arg_out args_mirror = Some [''m'']" by (simp add: args_mirror_def)
  have r: "arg_root args_mirror = [''d'']" by (simp add: args_mirror_def args_in_place_def)
  have s1: "separate (arg_root args_mirror) (path_join [''m''] (path_name (arg_root args_mirror)))"
    by (simp add: r separate_def path_join_def path_name_def)
  have s2: "separate (arg_root args_mirror) [''m'']"
    by (simp add: r separate_def)
  have p: "prefix (arg_root args_mirror) sample_path"
    by (simp add: r sample_path_def)
  have f: "fs_with list_file sample_path = Some (Parquet list_file)"
    by (simp add: fs_with_def)
  note T = mirror_run_leaves_source_tree [OF o, where loads = sample_loads and fr = sample_repr
      and walk = sample_walk and fs = "fs_with list_file"]
  from T s1 p have m1: "files (snd (main sample_loads sample_repr args_mirror sample_walk (fs_with list_file))) sample_path
     = fs_with list_file sample_path" by blast
  from T s2 p have m2: "files (snd (main_cv sample_loads sample_repr args_mirror sample_walk (fs_with list_file))) sample_path
     = fs_with list_file sample_path" by blast
  show ?thesis
    by (intro conjI) (fact o s1 s2 p m1 [unfolded f] m2 [unfolded f])+
qed

section \<open>What the convert script leaves at the schema level\<close>

lemma list_facts:
  "map_of (file_meta list_file) ''huggingface'' = Some blob_list"
  "map_of (schema_meta list_file) ''huggingface'' = Some blob_list"
  "map_of (file_meta list_file) ''ARROW:schema'' = Some packed_list"
  "map_of (schema_meta list_file) ''ARROW:schema'' = None"
  "sample_loads blob_list = Some (JObj sample_doc)"
  "blob_list \<noteq> []"
  "blob_list \<noteq> blob_sequence"
  by (simp_all add: list_file_def sample_loads_def blob_list_def blob_sequence_def)

lemma drift_facts:
  "map_of (file_meta drift_file) ''huggingface'' = Some blob_sequence"
  "map_of (schema_meta drift_file) ''huggingface'' = Some blob_list"
  by (simp_all add: drift_file_def)

lemma unpack_packed_list: "unpack_schema io_ok packed_list = Some [(''huggingface'', blob_list)]"
  by (simp add: io_ok_def sample_unpack_def)

lemma list_file_as_written: "reads_as_written io_ok list_file"
  by (simp add: reads_as_written_def list_facts unpack_packed_list) (simp add: list_file_def)

lemma sample_written_drift:
  "written_file io_ok
     \<lparr>tmeta = [(''huggingface'', blob_sequence), (''ARROW:schema'', packed_list)], tdata = ''rows''\<rparr>
   = Parquet drift_file"
proof -
  have o: "dict_order io_ok [(''huggingface'', blob_sequence), (''ARROW:schema'', packed_list)]
             = [(''huggingface'', blob_sequence), (''ARROW:schema'', packed_list)]"
    by (simp add: dict_order_def io_ok_def)
  show ?thesis
    by (simp add: written_file_def unpack_packed_list o drift_file_def)
qed

lemma fs_with_replaced: "(fs_with f)(sample_path \<mapsto> Parquet g) = fs_with g"
  by (simp add: fs_with_def)

lemma cv_in_place_write:
  "cv_write sample_repr args_in_place io_ok sample_path [''f.parquet''] (file_meta list_file)
     (JObj sample_doc_done) (fs_with list_file)
   = (Inr (), fs_with drift_file)"
proof -
  let ?fs = "fs_with list_file"
  let ?nt = "\<lparr>tmeta = [(''huggingface'', blob_sequence), (''ARROW:schema'', packed_list)],
              tdata = ''rows''\<rparr>"
  have nm: "dict_set (file_meta list_file) ''huggingface'' blob_sequence
              = [(''huggingface'', blob_sequence), (''ARROW:schema'', packed_list)]"
    by (simp add: list_file_def)
  have rt: "pq_read_table io_ok ?fs sample_path
              = Inr \<lparr>tmeta = [(''huggingface'', blob_list)], tdata = ''rows''\<rparr>"
    by (simp add: pq_read_table_def pq_open_def fs_with_def list_file_def io_ok_def)
  have up: "dict_update [(''huggingface'', blob_list)]
              [(''huggingface'', blob_sequence), (''ARROW:schema'', packed_list)]
            = [(''huggingface'', blob_sequence), (''ARROW:schema'', packed_list)]"
    by (simp add: dict_update_def)
  have t: "temp_write_replace io_ok ?nt sample_path ?fs
           = (Inr (), ?fs(sample_path \<mapsto> written_file io_ok ?nt))"
    by (simp add: temp_write_replace_def named_temporary_file_def pq_write_table_def os_replace_def
          fs_with_def sample_path_def parent_def io_ok_def Let_def fun_eq_iff)
  have rw: "rewrite_parquet_with_metadata io_ok sample_path
              [(''huggingface'', blob_sequence), (''ARROW:schema'', packed_list)] ?fs
            = (Inr (), fs_with drift_file)"
    by (simp add: rewrite_parquet_with_metadata_def rt up t sample_written_drift fs_with_replaced)
  show ?thesis
    by (simp add: cv_write_def dumps_sample_doc_done args_in_place_def nm rw)
qed

lemma cv_write_leaves_schema_level_sample:
  "\<exists>f'. fs_with drift_file sample_path = Some (Parquet f') \<and>
         map_of (file_meta f') ''huggingface'' = Some blob_sequence \<and>
         schema_meta f' = schema_meta list_file \<and> payload f' = payload list_file"
proof -
  have s: "fs_with list_file sample_path = Some (Parquet list_file)" by (simp add: fs_with_def)
  have k: "distinct (map fst (file_meta list_file))" by (simp add: list_file_def)
  have o: "arg_out args_in_place = None" by (simp add: args_in_place_def)
  from cv_write_leaves_schema_level [OF s k list_facts(3) list_file_as_written list_facts(4)
      dumps_sample_doc_done cv_in_place_write]
  show ?thesis by (simp add: o)
qed

lemma cv_in_place_run:
  "main_cv sample_loads sample_repr args_in_place sample_walk (fs_with list_file)
   = (Inr (), \<lparr>seen_parquet = 1, affected_parquet = 1, changed_entries = 1, copied_other = 0,
               total_parquet = 1, files = fs_with drift_file,
               printed = [AppliedLine sample_path 1 []]\<rparr>)"
proof -
  let ?fs = "fs_with list_file"
  have a: "arg_root args_in_place = [''d'']" "arg_out args_in_place = None"
    "arg_limit args_in_place = None" "arg_apply args_in_place"
    by (simp_all add: args_in_place_def)
  have e1: "cv_entry sample_loads sample_repr args_in_place ([''d''], True, io_ok) (start ?fs)
              = (Inr (), start ?fs)"
    by (simp add: cv_entry_def relative_to_def a)
  have md: "pq_read_metadata io_ok ?fs sample_path = Inr (file_meta list_file)"
    by (simp add: pq_read_metadata_def fs_with_def io_ok_def)
  have l: "load_hf_metadata sample_loads (file_meta list_file) = (JObj sample_doc, file_meta list_file)"
    by (simp add: load_hf_metadata_def list_facts bytes_truthy_def)
  have st: "files (start ?fs) = ?fs" by (simp add: start_def)
  have p2: "cv_parquet sample_loads sample_repr args_in_place io_ok sample_path [''f.parquet''] (start ?fs)
              = (Inr (), \<lparr>seen_parquet = 1, affected_parquet = 1, changed_entries = 1, copied_other = 0,
               total_parquet = 1, files = fs_with drift_file,
               printed = [AppliedLine sample_path 1 []]\<rparr>)"
    by (simp add: cv_parquet_def a start_def md l cv_sample cv_in_place_write Let_def)
  have sfx: "has_parquet_suffix sample_path"
    by (simp add: has_parquet_suffix_def sample_path_def path_name_def)
  have rel: "relative_to sample_path (arg_root args_in_place) = Inr [''f.parquet'']"
    by (simp add: relative_to_def a sample_path_def)
  have e2: "cv_entry sample_loads sample_repr args_in_place (sample_path, False, io_ok) (start ?fs)
              = (Inr (), \<lparr>seen_parquet = 1, affected_parquet = 1, changed_entries = 1, copied_other = 0,
               total_parquet = 1, files = fs_with drift_file,
               printed = [AppliedLine sample_path 1 []]\<rparr>)"
    by (simp add: cv_entry_def rel sfx p2)
  have root: "?fs (arg_root args_in_place) \<noteq> None" by (simp add: a fs_with_def)
  show ?thesis
    using root by (simp add: main_cv_def sample_walk_def e1 e2)
qed

lemma fix_in_place_run:
  "main sample_loads sample_repr args_in_place sample_walk (fs_with list_file)
   = (Inr (), \<lparr>seen_parquet = 1, affected_parquet = 1, changed_entries = 1, copied_other = 0,
               total_parquet = 1, files = fs_with done_file,
               printed = [AppliedLine sample_path 1 [u ''a'']]\<rparr>)"
proof -
  let ?fs = "fs_with list_file"
  let ?s = "(start ?fs)\<lparr>total_parquet := total_parquet (start ?fs) + 1,
                        seen_parquet := seen_parquet (start ?fs) + 1\<rparr>"
  have a: "arg_root args_in_place = [''d'']" "arg_out args_in_place = None"
    "arg_limit args_in_place = None" "arg_apply args_in_place" "out_root args_in_place = None"
    "arg_prefer args_in_place = PreferAuto"
    by (simp_all add: args_in_place_def out_root_def)
  have e1: "fix_entry sample_loads sample_repr args_in_place ([''d''], True, io_ok) (start ?fs)
              = (Inr (), start ?fs)"
    by (simp add: fix_entry_def relative_to_def a)
  have o: "pq_open io_ok (files (start ?fs)) sample_path = Inr list_file"
    by (simp add: pq_open_def start_def fs_with_def io_ok_def)
  have lim: "\<not> (case arg_limit args_in_place of None \<Rightarrow> False
                | Some l \<Rightarrow> l \<le> seen_parquet (start ?fs))"
    by (simp add: a)
  have cv: "convert_list_to_sequence (choose_json sample_loads (arg_prefer args_in_place) list_meta)
              = Inr (Ret3 (JObj sample_doc_done) 1 [u ''a''])"
    by (simp add: a choose_json_def list_meta_def sample_convert)
  have nw: "needs_write list_meta blob_sequence"
    by (simp add: needs_write_iff list_meta_def list_facts)
  have lm: "source list_meta \<noteq> SrcNone" "json list_meta \<noteq> JNull"
    by (simp_all add: list_meta_def)
  have w: "write_with_hf_metadata sample_repr io_ok sample_path None (JObj sample_doc_done) ?fs
             = (Inr (), fs_with done_file)"
    using sample_write_ok by (simp add: sample_written_done fs_with_replaced)
  have p1: "fix_parquet sample_loads sample_repr args_in_place io_ok sample_path [''f.parquet''] (start ?fs)
              = fix_rewrite sample_loads sample_repr args_in_place io_ok sample_path [''f.parquet'']
                  list_meta ?s"
    by (simp only: fix_parquet_opened [OF lim o] read_list_file Let_def lm if_False simp_thms)
  have p2: "fix_parquet sample_loads sample_repr args_in_place io_ok sample_path [''f.parquet''] (start ?fs)
              = (Inr (), \<lparr>seen_parquet = 1, affected_parquet = 1, changed_entries = 1, copied_other = 0,
               total_parquet = 1, files = fs_with done_file,
               printed = [AppliedLine sample_path 1 [u ''a'']]\<rparr>)"
    unfolding p1 fix_rewrite_ret3 [OF cv dumps_sample_doc_done]
    by (simp add: nw a start_def w Let_def)
  have sfx: "has_parquet_suffix sample_path"
    by (simp add: has_parquet_suffix_def sample_path_def path_name_def)
  have rel: "relative_to sample_path (arg_root args_in_place) = Inr [''f.parquet'']"
    by (simp add: relative_to_def a sample_path_def)
  have e2: "fix_entry sample_loads sample_repr args_in_place (sample_path, False, io_ok) (start ?fs)
              = (Inr (), \<lparr>seen_parquet = 1, affected_parquet = 1, changed_entries = 1, copied_other = 0,
               total_parquet = 1, files = fs_with done_file,
               printed = [AppliedLine sample_path 1 [u ''a'']]\<rparr>)"
    by (simp add: fix_entry_def rel sfx p2)
  have root: "?fs (arg_root args_in_place) \<noteq> None" by (simp add: a fs_with_def)
  show ?thesis
    using root by (simp add: main_def sample_walk_def e1 e2)
qed

text \<open>
  Claim C6. \<open>list_file\<close> is a file as \<open>pq.write_table\<close> writes it, with the sample
  document, one feature tagged \<open>List\<close>, in its footer and in its schema metadata. The
  run \<open>--root /d --apply\<close> of \<open>convert_parquet_hf_list_to_sequence.py\<close> succeeds, counts
  one changed entry, and leaves \<open>drift_file\<close>: the footer holds the rewritten blob, the
  schema metadata still holds the old one. The new blob has not been merged into the
  schema-level map. The same run of \<open>fix_parquet_hf_metadata.py\<close>, whose writer sets the
  one key, leaves \<open>done_file\<close>, with the rewritten blob in both places.
\<close>

theorem convert_leaves_schema_blob_unchanged:
  "reads_as_written io_ok list_file \<and>
   map_of (file_meta list_file) ''huggingface'' = Some blob_list \<and>
   map_of (schema_meta list_file) ''huggingface'' = Some blob_list \<and>
   main_cv sample_loads sample_repr args_in_place sample_walk (fs_with list_file)
     = (Inr (), \<lparr>seen_parquet = 1, affected_parquet = 1, changed_entries = 1, copied_other = 0,
                 total_parquet = 1, files = fs_with drift_file,
                 printed = [AppliedLine sample_path 1 []]\<rparr>) \<and>
   fs_with drift_file sample_path = Some (Parquet drift_file) \<and>
   map_of (file_meta drift_file) ''huggingface'' = Some blob_sequence \<and>
   map_of (schema_meta drift_file) ''huggingface'' = Some blob_list \<and>
   blob_list \<noteq> blob_sequence \<and>
   main sample_loads sample_repr args_in_place sample_walk (fs_with list_file)
     = (Inr (), \<lparr>seen_parquet = 1, affected_parquet = 1, changed_entries = 1, copied_other = 0,
                 total_parquet = 1, files = fs_with done_file,
                 printed = [AppliedLine sample_path 1 [u ''a'']]\<rparr>) \<and>
   fs_with done_file sample_path = Some (Parquet done_file) \<and>
   map_of (file_meta done_file) ''huggingface'' = Some blob_sequence \<and>
   map_of (schema_meta done_file) ''huggingface'' = Some blob_sequence"
proof -
  have d: "fs_with drift_file sample_path = Some (Parquet drift_file)"
    "fs_with done_file sample_path = Some (Parquet done_file)"
    by (simp_all add: fs_with_def)
  have m: "map_of (file_meta done_file) ''huggingface'' = Some blob_sequence"
    "map_of (schema_meta done_file) ''huggingface'' = Some blob_sequence"
    by (simp_all add: done_file_def)
  show ?thesis
    by (intro conjI)
       (fact list_file_as_written list_facts(1,2,7) cv_in_place_run d drift_facts fix_in_place_run m)+
qed

end
